theory Spec2Isabelle
  imports Complex_Main "HOL-Library.Signed_Division"
begin

section \<open>Managed matmul core: the embedding\<close>

text \<open>
  The development follows \<^verbatim>\<open>managed_matmul_core.cpp\<close> of the graph compiler.
  C++ \<^verbatim>\<open>int\<close> values and the integer expressions of the generated loop nest are
  modelled as \<^typ>\<open>int\<close>; the source's \<^verbatim>\<open>/\<close> and \<^verbatim>\<open>%\<close> truncate towards
  zero and are written \<open>sdiv\<close> and \<open>smod\<close>. The sums and products of
  \<^verbatim>\<open>get_default_config\<close> that can leave the range of a 32-bit \<^verbatim>\<open>int\<close> on inputs
  that fit in it (the cost of a candidate and the working set compared with the cache
  size) are reduced by \<open>wrap32\<close>; every other integer operation stays in range under
  the bounds \<open>int32_op\<close> and is written without it. A division whose
  divisor is zero, an out-of-range \<^verbatim>\<open>vector::at\<close>, a failed \<^verbatim>\<open>assert\<close>
  and a failed \<^verbatim>\<open>COMPILE_ASSERT\<close> are values of the type \<open>error\<close>.
\<close>

subsection \<open>Errors and checked arithmetic\<close>

datatype error =
    AssertionFailed
  | OutOfRange
  | DivisionByZero
  | Bad_M_sub_block
  | Bad_N_sub_block
  | Bad_K_sub_block
  | Wrong_data_format_of_B

definition bind_res :: "error + 'a \<Rightarrow> ('a \<Rightarrow> error + 'b) \<Rightarrow> error + 'b" where
  "bind_res r f = (case r of Inl e \<Rightarrow> Inl e | Inr x \<Rightarrow> f x)"

definition c_div :: "int \<Rightarrow> int \<Rightarrow> error + int" where
  "c_div a b = (if b = 0 then Inl DivisionByZero else Inr (a sdiv b))"

text \<open>
  A signed 32-bit \<^verbatim>\<open>int\<close> result: the value modulo \<open>2^32\<close> in
  \<open>[-2^31, 2^31)\<close>, which is what the compiled two's complement arithmetic leaves
  when a sum or a product overflows.
\<close>

definition wrap32 :: "int \<Rightarrow> int" where
  "wrap32 x = (x + 2 ^ 31) mod 2 ^ 32 - 2 ^ 31"

text \<open>
  Modelled from the spec: \<^verbatim>\<open>utils::divide_and_ceil\<close> and \<^verbatim>\<open>utils::rnd_up\<close>
  live in \<^verbatim>\<open>utils.hpp\<close>, which is not among the sources; the spec calls them
  \<open>ceil(x / y)\<close> and rounding up to block granularity. They are written with the
  formula of the file's own \<^verbatim>\<open>divide_and_ceil\<close> (line 63).
\<close>

definition utils_divide_and_ceil :: "int \<Rightarrow> int \<Rightarrow> error + int" where
  "utils_divide_and_ceil x y = c_div (x + y - 1) y"

definition rnd_up :: "int \<Rightarrow> int \<Rightarrow> error + int" where
  "rnd_up x y = bind_res (utils_divide_and_ceil x y) (\<lambda>q. Inr (q * y))"

subsection \<open>\<^verbatim>\<open>get_splits\<close>, \<^verbatim>\<open>divide_and_ceil\<close>, \<^verbatim>\<open>get_balance211_length\<close>\<close>

definition get_splits :: "int \<Rightarrow> int list" where
  "get_splits X = filter (\<lambda>i. X smod i = 0) [1..X]"

text \<open>\<^verbatim>\<open>std::vector::at\<close>: bounds-checked, throws \<^verbatim>\<open>std::out_of_range\<close>.\<close>

definition vector_at :: "int list \<Rightarrow> nat \<Rightarrow> error + int" where
  "vector_at xs k = (if k < length xs then Inr (xs ! k) else Inl OutOfRange)"

text \<open>
  The expression-level \<^verbatim>\<open>divide_and_ceil\<close> builds \<open>(v + d - 1) / d\<close>; the three
  expressions \<^verbatim>\<open>get_balance211_length\<close> builds (the returned length, \<open>n_start\<close> and
  \<open>T1\<close>) are evaluated by \<open>balance211\<close>. Note the \<open>\<le>\<close> in \<open>n_start\<close> against the
  \<open><\<close> in the length, as in the source.
\<close>

definition divide_and_ceil :: "int \<Rightarrow> int \<Rightarrow> int" where
  "divide_and_ceil v d = (v + d - 1) sdiv d"

definition balance211 :: "int \<Rightarrow> int \<Rightarrow> int \<Rightarrow> int \<times> int \<times> int" where
  "balance211 n team idx =
     (let n1 = divide_and_ceil n team;
          n2 = n1 - 1;
          T1 = n - n2 * team;
          n_start = (if idx \<le> T1 then idx * n1 else T1 * n1 + (idx - T1) * n2)
      in ((if idx < T1 then n1 else n2), n_start, T1))"

text \<open>
  The function itself first asserts \<open>team \<ge> 1\<close>; the result is the triple
  (length, \<open>n_start\<close>, \<open>T1\<close>), the last two being the source's out-parameters.
\<close>

definition get_balance211_length :: "int \<Rightarrow> int \<Rightarrow> int \<Rightarrow> error + int \<times> int \<times> int" where
  "get_balance211_length n team idx =
     (if team \<ge> 1 then Inr (balance211 n team idx) else Inl AssertionFailed)"

definition bal_length :: "int \<Rightarrow> int \<Rightarrow> int \<Rightarrow> int" where
  "bal_length n team idx = fst (balance211 n team idx)"

definition bal_start :: "int \<Rightarrow> int \<Rightarrow> int \<Rightarrow> int" where
  "bal_start n team idx = fst (snd (balance211 n team idx))"

definition bal_bigger_num :: "int \<Rightarrow> int \<Rightarrow> int" where
  "bal_bigger_num n team = snd (snd (balance211 n team 0))"

subsection \<open>The configuration and the operator\<close>

text \<open>
  \<^verbatim>\<open>managed_matmul_core_config_t\<close> with the six reflected fields. The record
  \<open>matmul_op\<close> gathers what \<^verbatim>\<open>get_default_config\<close> and \<^verbatim>\<open>generate\<close> read from
  the generator object and its environment: the thread count of the runtime
  configuration, the three block sizes fixed by the constructor, the plain dimensions
  of the input tensors, whether the dtype of A is \<^verbatim>\<open>u8\<close> or \<^verbatim>\<open>s8\<close>, the element
  sizes \<^verbatim>\<open>get_sizeof_etype\<close> returns for A and C (that table is not among the
  sources, so the sizes are inputs), and the size of the level-2 data cache.
\<close>

record managed_matmul_core_config_t =
  M_split_num :: int
  N_split_num :: int
  M_sub_block :: int
  N_sub_block :: int
  K_sub_block :: int
  im_loop_order :: int

record matmul_op =
  num_threads :: int
  iim_block :: int
  iin_block :: int
  iik_block :: int
  plain_M :: int
  plain_K :: int
  plain_N :: int
  is_int8 :: bool
  sizeofdtypeA :: int
  sizeofdtypeC :: int
  L2_size :: int

subsection \<open>The cost of a candidate as a \<^verbatim>\<open>float\<close>\<close>

text \<open>
  \<^verbatim>\<open>new_cost\<close> is an \<^verbatim>\<open>int\<close> expression converted to \<^verbatim>\<open>float\<close>. A binary32
  value that is an integer is represented by that integer: \<open>int_to_float\<close> rounds to
  24 significant bits, ties to even (\<open>float_ulp x 1\<close> is the power of two that
  leaves at most 24 bits of \<open>x\<close>), and \<open>FLT_MAX\<close> is
  \<^verbatim>\<open>std::numeric_limits<float>::max()\<close>.
\<close>

function float_ulp :: "int \<Rightarrow> int \<Rightarrow> int" where
  "float_ulp x p = (if p \<le> 0 \<or> x div p < 2 ^ 24 then p else float_ulp x (2 * p))"
  by pat_completeness auto
termination
proof (relation "measure (\<lambda>(x, p). nat (x - p))")
  show "wf (measure (\<lambda>(x, p). nat (x - p)))" by simp
next
  fix x p :: int
  assume a: "\<not> (p \<le> 0 \<or> x div p < 2 ^ 24)"
  then have p: "0 < p" and d: "2 ^ 24 \<le> x div p" by simp_all
  have m: "0 \<le> x mod p" using p by simp
  have "p * (x div p) + x mod p = x" by (rule mult_div_mod_eq)
  then have "p * (x div p) \<le> x" using m by linarith
  moreover have "p * 2 ^ 24 \<le> p * (x div p)" using p d by (intro mult_left_mono) simp_all
  ultimately have "p * 2 ^ 24 \<le> x" by linarith
  moreover have "p * 2 \<le> p * 2 ^ 24" using p by (intro mult_left_mono) simp_all
  ultimately have "2 * p \<le> x" by linarith
  then show "((x, 2 * p), (x, p)) \<in> measure (\<lambda>(x, p). nat (x - p))" using p by simp
qed

definition round_nearest_even :: "int \<Rightarrow> int" where
  "round_nearest_even x =
     (let p = float_ulp x 1; q = x div p; r = x mod p
      in if 2 * r > p \<or> (2 * r = p \<and> odd q) then (q + 1) * p else q * p)"

definition int_to_float :: "int \<Rightarrow> int" where
  "int_to_float x = (if x < 0 then - round_nearest_even (- x) else round_nearest_even x)"

definition FLT_MAX :: int where
  "FLT_MAX = 2 ^ 128 - 2 ^ 104"


subsection \<open>\<^verbatim>\<open>get_default_config\<close>\<close>

text \<open>
  The function in the order of the source: the padded dimensions (lines 88-99), the
  cost search over \<open>i = 1 .. num_threads\<close> (lines 104-125), the three overrides
  (lines 126-154) and the sub-block sizes (lines 155-190). \<open>search_split_n\<close> is the
  \<^verbatim>\<open>for\<close> loop with its two variables \<open>split_n\<close> and \<open>cost\<close>. In the overrides
  \<open>N / M\<close> is evaluated only when \<open>possible_splits.size() > 2\<close>, as \<^verbatim>\<open>&&\<close> does.
  The value \<^verbatim>\<open>L2_MN\<close> of the first sizing branch is computed in double precision
  (\<^verbatim>\<open>sqrt\<close>, \<^verbatim>\<open>pow\<close>) and truncated to \<^verbatim>\<open>int\<close>; it is the parameter
  \<open>fp_L2_MN sizeofdtypeA L2_K sizeofdtypeC L2_size\<close>, and every theorem holds for
  every such function. The \<^verbatim>\<open>int\<close> expression of the cost (line 120) and the product
  \<^verbatim>\<open>single_M * single_N * sizeofdtypeA\<close> (line 164) are evaluated in 32 bits, each sum
  and product reduced by \<open>wrap32\<close>; \<^verbatim>\<open>num_core\<close> is a product of two minima and at most
  \<^verbatim>\<open>num_threads\<close>.
\<close>

definition padded_dims :: "matmul_op \<Rightarrow> error + int \<times> int \<times> int" where
  "padded_dims p =
     bind_res (utils_divide_and_ceil (plain_M p) (iim_block p)) (\<lambda>mq.
     bind_res (utils_divide_and_ceil (plain_N p) (iin_block p)) (\<lambda>nq.
     bind_res (utils_divide_and_ceil (plain_K p) (iik_block p)) (\<lambda>kq.
       Inr (mq * iim_block p, nq * iin_block p, kq * iik_block p))))"

definition new_cost :: "matmul_op \<Rightarrow> int \<Rightarrow> int \<Rightarrow> int \<Rightarrow> error + int" where
  "new_cost p M N i =
     bind_res (c_div M (iim_block p)) (\<lambda>Mb.
     bind_res (c_div (num_threads p) i) (\<lambda>ms.
     bind_res (utils_divide_and_ceil Mb ms) (\<lambda>num_M_block.
     bind_res (c_div N (iin_block p)) (\<lambda>Nb.
     bind_res (utils_divide_and_ceil Nb i) (\<lambda>num_N_block.
       let num_brgemm = wrap32 (num_M_block * num_N_block);
           num_core = min i Nb * min ms Mb
       in
     bind_res (c_div (wrap32 (M * i)) (num_threads p)) (\<lambda>t1.
     bind_res (c_div N i) (\<lambda>t2.
     bind_res (c_div (wrap32 (wrap32 (wrap32 (1024 + t1) + t2) *
                              wrap32 (num_brgemm + wrap32 (8 * i)))) num_core) (\<lambda>c.
       Inr (int_to_float c)))))))))"

function search_split_n :: "matmul_op \<Rightarrow> int \<Rightarrow> int \<Rightarrow> int \<Rightarrow> int \<Rightarrow> int \<Rightarrow> error + int" where
  "search_split_n p M N i split_n cost =
     (if i \<le> num_threads p then
        (case new_cost p M N i of
           Inl e \<Rightarrow> Inl e
         | Inr nc \<Rightarrow>
             if nc < cost then search_split_n p M N (i + 1) i nc
             else search_split_n p M N (i + 1) split_n cost)
      else Inr split_n)"
  by pat_completeness auto
termination
  by (relation "measure (\<lambda>(p, M, N, i, split_n, cost). nat (num_threads p + 1 - i))") auto

definition apply_overrides ::
  "matmul_op \<Rightarrow> int \<Rightarrow> int \<Rightarrow> int \<Rightarrow> int \<Rightarrow> error + int \<times> int" where
  "apply_overrides p M N K split_n =
     bind_res (c_div (num_threads p) split_n) (\<lambda>ms0.
       let ns0 = split_n in
       if is_int8 p \<and> N \<le> 512 \<and> K \<le> 512 then Inr (num_threads p, 1)
       else if N \<le> 192 \<and> K \<le> 192 then Inr (num_threads p, 1)
       else if K \<ge> 8192 then
         (if M < N then
            (let possible_splits = get_splits ms0 in
             bind_res (if length possible_splits > 2 then c_div N M else Inr 0) (\<lambda>ratio.
               if length possible_splits > 2 \<and> ratio < 3
               then bind_res (c_div ms0 (possible_splits ! 1)) (\<lambda>ms. Inr (ms, ns0))
               else bind_res (vector_at (get_splits (num_threads p)) 1) (\<lambda>K_split_num.
                    bind_res (c_div (num_threads p) K_split_num) (\<lambda>ns. Inr (1, ns)))))
          else
            (let possible_splits = get_splits ns0 in
             if length possible_splits > 2
             then bind_res (c_div ns0 (possible_splits ! 1)) (\<lambda>ns. Inr (ms0, ns))
             else Inr (ms0, ns0)))
       else Inr (ms0, ns0))"

definition single_extent :: "int \<Rightarrow> int \<Rightarrow> int \<Rightarrow> error + int" where
  "single_extent X block split_num =
     bind_res (utils_divide_and_ceil X block) (\<lambda>b.
     bind_res (utils_divide_and_ceil b split_num) (\<lambda>s. Inr (s * block)))"

definition single_K_threshold :: "matmul_op \<Rightarrow> int \<Rightarrow> int \<Rightarrow> error + int" where
  "single_K_threshold p single_M single_N =
     c_div (if wrap32 (wrap32 (single_M * single_N) * sizeofdtypeA p) < L2_size p
            then 2048 else 4096)
           (sizeofdtypeA p)"

definition size_sub_blocks ::
  "(int \<Rightarrow> int \<Rightarrow> int \<Rightarrow> int \<Rightarrow> int) \<Rightarrow> matmul_op \<Rightarrow> int \<Rightarrow> int \<Rightarrow> int \<Rightarrow> int \<Rightarrow> int
     \<Rightarrow> error + int \<times> int \<times> int" where
  "size_sub_blocks fp_L2_MN p M N K ms ns =
     bind_res (single_extent M (iim_block p) ms) (\<lambda>single_M.
     bind_res (single_extent N (iin_block p) ns) (\<lambda>single_N.
       let single_K = K in
     bind_res (single_K_threshold p single_M single_N) (\<lambda>threshold.
       if single_K \<ge> threshold then
         bind_res (utils_divide_and_ceil single_K threshold) (\<lambda>ksb.
         bind_res (utils_divide_and_ceil single_K (iik_block p)) (\<lambda>kb.
         bind_res (utils_divide_and_ceil kb ksb) (\<lambda>kq.
           let L2_K = kq * iik_block p;
               L2_MN = fp_L2_MN (sizeofdtypeA p) L2_K (sizeofdtypeC p) (L2_size p)
           in
         bind_res (c_div single_M L2_MN) (\<lambda>mq.
         bind_res (c_div single_N L2_MN) (\<lambda>nq.
           Inr (max 1 mq, max 1 nq, ksb))))))
       else
         bind_res (c_div (L2_size p) (2 * sizeofdtypeA p * single_K)) (\<lambda>L2_MN.
         bind_res (c_div single_M L2_MN) (\<lambda>mq.
         bind_res (c_div single_N L2_MN) (\<lambda>nq.
           Inr (max 1 mq, max 1 nq, 1)))))))"

definition get_default_config ::
  "(int \<Rightarrow> int \<Rightarrow> int \<Rightarrow> int \<Rightarrow> int) \<Rightarrow> matmul_op \<Rightarrow> error + managed_matmul_core_config_t" where
  "get_default_config fp_L2_MN p =
     bind_res (padded_dims p) (\<lambda>(M, N, K).
     bind_res (search_split_n p M N 1 1 FLT_MAX) (\<lambda>split_n.
     bind_res (apply_overrides p M N K split_n) (\<lambda>(ms, ns).
     bind_res (size_sub_blocks fp_L2_MN p M N K ms ns) (\<lambda>(msb, nsb, ksb).
       Inr \<lparr>M_split_num = ms, N_split_num = ns, M_sub_block = msb, N_sub_block = nsb,
            K_sub_block = ksb, im_loop_order = 0\<rparr>))))"

text \<open>
  The inputs the constructor and the runtime can produce: at least one thread,
  positive blocks and dimensions, an element of one, two or four bytes for A.
\<close>

definition valid_op :: "matmul_op \<Rightarrow> bool" where
  "valid_op p \<longleftrightarrow>
     1 \<le> num_threads p \<and> 1 \<le> iim_block p \<and> 1 \<le> iin_block p \<and> 1 \<le> iik_block p \<and>
     1 \<le> plain_M p \<and> 1 \<le> plain_K p \<and> 1 \<le> plain_N p \<and>
     (sizeofdtypeA p = 1 \<or> sizeofdtypeA p = 2 \<or> sizeofdtypeA p = 4) \<and>
     1 \<le> sizeofdtypeC p \<and> 0 \<le> L2_size p"

text \<open>
  The bounds under which the integer operations written without \<open>wrap32\<close> stay within
  32 bits: the padded dimensions are below \<open>2^30 + 2^16\<close>, the sums inside the ceiling
  divisions below \<open>2^31\<close>, and the per-thread extents are at most the padded dimensions.
\<close>

definition int32_op :: "matmul_op \<Rightarrow> bool" where
  "int32_op p \<longleftrightarrow>
     num_threads p \<le> 2 ^ 16 \<and> iim_block p \<le> 2 ^ 16 \<and> iin_block p \<le> 2 ^ 16 \<and>
     iik_block p \<le> 2 ^ 16 \<and> plain_M p \<le> 2 ^ 30 \<and> plain_K p \<le> 2 ^ 30 \<and>
     plain_N p \<le> 2 ^ 30 \<and> L2_size p < 2 ^ 31"

subsection \<open>The block sizes chosen by the constructor (lines 194-246)\<close>

text \<open>
  \<^verbatim>\<open>suggest_aligned_block\<close> and the constructor of the generator, which fixes
  \<^verbatim>\<open>iim_block_\<close>, \<^verbatim>\<open>iin_block_\<close> and \<^verbatim>\<open>iik_block_\<close> from the dtype of A, the thread
  count and the plain dimensions. The arithmetic is that of \<^verbatim>\<open>size_t\<close> and \<^verbatim>\<open>int64_t\<close>
  on positive values.
\<close>

datatype sc_data_type = f32 | bf16 | u8 | s8 | s32

definition suggest_aligned_block :: "int \<Rightarrow> int \<Rightarrow> int \<Rightarrow> int \<Rightarrow> error + int" where
  "suggest_aligned_block plain_X default_block min_block align =
     (if plain_X < default_block then
        (if plain_X \<le> min_block then Inr min_block
         else if plain_X < align then rnd_up plain_X min_block
         else rnd_up plain_X align)
      else if default_block = 0 then Inl DivisionByZero
      else if plain_X smod default_block = 0 then rnd_up default_block align
      else
        bind_res (utils_divide_and_ceil plain_X default_block) (\<lambda>num_X_block.
        bind_res (utils_divide_and_ceil plain_X num_X_block) (\<lambda>b. rnd_up b align)))"

definition constructor_blocks ::
  "sc_data_type \<Rightarrow> int \<Rightarrow> int \<Rightarrow> int \<Rightarrow> int \<Rightarrow> error + int \<times> int \<times> int" where
  "constructor_blocks A_dtype nthreads pM pK pN =
     (let is_bf16 = (A_dtype = bf16);
          is_f32 = (A_dtype = f32);
          (M_block_default, N_block_default, K_block_default) =
            (if is_f32 then (16, 16, 16)
             else if is_bf16 then (32, 32, 32)
             else (32, 64, 64))
      in
        if \<not> is_f32 \<and> \<not> is_bf16 \<and> \<not> (A_dtype = u8 \<or> A_dtype = s8) then Inl AssertionFailed
        else
        bind_res (if pN \<le> 512 \<and> pK \<le> 512
                  then bind_res (utils_divide_and_ceil pM nthreads) (\<lambda>q.
                         Inr (max 4 (min M_block_default q)))
                  else suggest_aligned_block pM M_block_default 1 1) (\<lambda>iim.
        bind_res (suggest_aligned_block pN N_block_default 1 16) (\<lambda>iin.
        bind_res (suggest_aligned_block pK K_block_default
                    (if is_bf16 then 2 else if is_f32 then 1 else 4) 16) (\<lambda>iik.
          Inr (iim, iin, iik)))))"

subsection \<open>The inner block loops of \<^verbatim>\<open>single_thread_matmul_call\<close>\<close>

text \<open>
  Lines 301-309: the loops over \<open>m_o\<close> and \<open>n_o\<close> and the rolled start indices;
  \<open>visited_blocks\<close> lists the pairs \<open>(m_start_idx, n_start_idx)\<close> in loop order.
\<close>

definition m_start_idx :: "matmul_op \<Rightarrow> int \<Rightarrow> int \<Rightarrow> int \<Rightarrow> int \<Rightarrow> int \<Rightarrow> int" where
  "m_start_idx p m_idx m_b_idx m_o_end tid m_o =
     m_idx + m_b_idx * iim_block p + ((m_o + tid) smod m_o_end) * iim_block p"

definition n_start_idx :: "matmul_op \<Rightarrow> int \<Rightarrow> int \<Rightarrow> int \<Rightarrow> int \<Rightarrow> int \<Rightarrow> int" where
  "n_start_idx p n_idx n_b_idx n_o_end tid n_o =
     n_idx + n_b_idx * iin_block p + ((n_o + tid) smod n_o_end) * iin_block p"

definition visited_blocks ::
  "matmul_op \<Rightarrow> int \<Rightarrow> int \<Rightarrow> int \<Rightarrow> int \<Rightarrow> int \<Rightarrow> int \<Rightarrow> int \<Rightarrow> (int \<times> int) list" where
  "visited_blocks p m_idx n_idx m_b_idx n_b_idx m_o_end n_o_end tid =
     concat (map (\<lambda>m_o. map (\<lambda>n_o.
         (m_start_idx p m_idx m_b_idx m_o_end tid m_o,
          n_start_idx p n_idx n_b_idx n_o_end tid n_o))
       [0..n_o_end - 1]) [0..m_o_end - 1])"

section \<open>Building the loop plan: \<^verbatim>\<open>generate\<close>\<close>

text \<open>
  \<^verbatim>\<open>generate\<close> builds an IR; the embedding keeps what the claims speak of. The checks made
  while the IR is built (\<^verbatim>\<open>COMPILE_ASSERT\<close>, \<^verbatim>\<open>assert\<close>, integer division) are branches that
  return an \<^typ>\<open>error\<close>; the IR that is built is a function of the loop variables which returns
  the fusion anchors in the order in which the loops create them, and the events of the
  reduction phase. The brgemm calls themselves are not modelled.
\<close>

subsection \<open>The context of \<^verbatim>\<open>generate\<close>\<close>

text \<open>
  What \<^verbatim>\<open>generate\<close> reads besides the operator and the configuration: whether a fusion
  manager is given, whether the output format is blocking, the data type of B and
  \<^verbatim>\<open>blocks_[2]\<close> of its format, the blocking dims of the output, and the value of
  \<^verbatim>\<open>vectorize_step(ctx, C_dtype, 16)\<close>.
\<close>

record gen_ctx =
  fusion :: bool
  C_is_blocking :: bool
  B_dtype :: sc_data_type
  B_format_blocks_2 :: int
  C_blocking_dims :: "int list"
  vectorize_step_16 :: int

subsection \<open>Sizes (lines 518-545)\<close>

text \<open>
  \<^verbatim>\<open>K_split_num = num_threads / M_split_num / N_split_num\<close>, the padded dims \<open>M\<close>, \<open>K\<close>,
  \<open>N\<close> (the fields \<open>g_M\<close>, \<open>g_K\<close>, \<open>g_N\<close>), the block sizes of the balanced and of the
  imbalanced threads, where an imbalanced size of 0 is replaced by the balanced one, and the
  number of threads having the bigger block size.
\<close>

record gen_sizes =
  K_split_num :: int
  g_M :: int
  g_K :: int
  g_N :: int
  M_block_size :: int
  M_ib_block_size :: int
  N_block_size :: int
  N_ib_block_size :: int
  K_block_size :: int
  K_ib_block_size :: int
  M_blk_num :: int
  N_blk_num :: int

definition block_size_pair :: "int \<Rightarrow> int \<Rightarrow> int \<Rightarrow> error + int \<times> int" where
  "block_size_pair X block split_num =
     bind_res (c_div X block) (\<lambda>Xb.
     bind_res (utils_divide_and_ceil Xb split_num) (\<lambda>q.
     bind_res (c_div Xb split_num) (\<lambda>fl.
       let X_block_size = q * block;
           X_ib_block_size = fl * block
       in Inr (X_block_size, if X_ib_block_size = 0 then X_block_size else X_ib_block_size))))"

definition blk_num :: "int \<Rightarrow> int \<Rightarrow> int \<Rightarrow> int \<Rightarrow> error + int" where
  "blk_num X X_block_size block split_num = c_div (X - (X_block_size - block) * split_num) block"

definition generate_sizes :: "matmul_op \<Rightarrow> managed_matmul_core_config_t \<Rightarrow> error + gen_sizes" where
  "generate_sizes p config =
     bind_res (c_div (num_threads p) (M_split_num config)) (\<lambda>t.
     bind_res (c_div t (N_split_num config)) (\<lambda>ks.
     bind_res (rnd_up (plain_M p) (iim_block p)) (\<lambda>M.
     bind_res (rnd_up (plain_K p) (iik_block p)) (\<lambda>K.
     bind_res (rnd_up (plain_N p) (iin_block p)) (\<lambda>N.
     bind_res (block_size_pair M (iim_block p) (M_split_num config)) (\<lambda>(mbs, mib).
     bind_res (block_size_pair N (iin_block p) (N_split_num config)) (\<lambda>(nbs, nib).
     bind_res (block_size_pair K (iik_block p) ks) (\<lambda>(kbs, kib).
     bind_res (blk_num M mbs (iim_block p) (M_split_num config)) (\<lambda>mbn.
     bind_res (blk_num N nbs (iin_block p) (N_split_num config)) (\<lambda>nbn.
       Inr \<lparr>K_split_num = ks, g_M = M, g_K = K, g_N = N,
            M_block_size = mbs, M_ib_block_size = mib,
            N_block_size = nbs, N_ib_block_size = nib,
            K_block_size = kbs, K_ib_block_size = kib,
            M_blk_num = mbn, N_blk_num = nbn\<rparr>))))))))))"

subsection \<open>Fusion anchors of \<^verbatim>\<open>single_thread_matmul_call\<close> (lines 273-499)\<close>

text \<open>
  A slice is a list of (offset, length) pairs, two for a plain output and four for a blocking
  one. An anchor is an output anchor with one slice, or an iterated anchor with an iterator
  and its candidate slices; \<open>anchor_slice\<close> is the slice in force. Each anchor is recorded with
  the site creating it: \<open>Inner_block\<close> for the anchor of lines 352-364, inside the loops over
  \<open>m_o\<close> and \<open>n_o\<close>, and \<open>Sub_block\<close> for the anchor of lines 368-486, after the loop over
  \<open>k_b\<close>.
\<close>

datatype anchor_site = Inner_block | Sub_block

type_synonym slice_range = "(int \<times> int) list"

datatype fusion_anchor = Output_anchor slice_range | Iterated_anchor int "slice_range list"

fun anchor_slice :: "fusion_anchor \<Rightarrow> slice_range" where
  "anchor_slice (Output_anchor sl) = sl"
| "anchor_slice (Iterated_anchor it sls) = sls ! nat it"

text \<open>
  Lines 299-366. The anchor of an inner block is created when \<open>k_b\<close> is the last
  \<open>K_sub_block\<close> step; with \<^verbatim>\<open>im_loop_order = 1\<close> the loops over \<open>m_o\<close> and \<open>n_o\<close> are
  exchanged (lines 494-498).
\<close>

definition block_anchor :: "matmul_op \<Rightarrow> gen_ctx \<Rightarrow> int \<Rightarrow> int \<Rightarrow> fusion_anchor" where
  "block_anchor p g m_start n_start =
     Output_anchor
       (if \<not> C_is_blocking g
        then [(m_start, iim_block p), (n_start, iin_block p)]
        else [(m_start sdiv iim_block p, 1), (n_start sdiv iin_block p, 1),
              (0, iim_block p), (0, iin_block p)])"

definition inner_block_loops ::
  "matmul_op \<Rightarrow> gen_ctx \<Rightarrow> managed_matmul_core_config_t \<Rightarrow> int \<Rightarrow> int \<Rightarrow> int \<Rightarrow> int \<Rightarrow> int \<Rightarrow> int
     \<Rightarrow> int \<Rightarrow> int \<Rightarrow> (anchor_site \<times> fusion_anchor) list" where
  "inner_block_loops p g config m_idx n_idx m_b_idx n_b_idx m_o_end n_o_end tid k_b =
     (let body = (\<lambda>m_o n_o.
            if k_b = K_sub_block config - 1
            then [(Inner_block,
                   block_anchor p g (m_start_idx p m_idx m_b_idx m_o_end tid m_o)
                                    (n_start_idx p n_idx n_b_idx n_o_end tid n_o))]
            else [])
      in if im_loop_order config = 1
         then concat (map (\<lambda>n_o. concat (map (\<lambda>m_o. body m_o n_o) [0..m_o_end - 1]))
                [0..n_o_end - 1])
         else concat (map (\<lambda>m_o. concat (map (\<lambda>n_o. body m_o n_o) [0..n_o_end - 1]))
                [0..m_o_end - 1]))"

text \<open>
  Lines 368-486. When both axes have one block size and the sub-blocks divide it evenly
  (\<open>case1\<close>) one output anchor is created. Otherwise the sixteen candidate slices are listed
  in the order of the loops over \<open>p\<close>, \<open>q\<close>, \<open>i\<close>, \<open>j\<close> and the iterator is chosen by the
  nested tests of lines 432-484. The plain branch divides \<^verbatim>\<open>M_anchor_info[p + 1]\<close> by
  \<^verbatim>\<open>M_sub_block\<close> alone, the blocking branch by \<^verbatim>\<open>iim_block_\<close> first.
\<close>

definition case1 :: "matmul_op \<Rightarrow> managed_matmul_core_config_t \<Rightarrow> int list \<Rightarrow> int list \<Rightarrow> bool" where
  "case1 p config M_anchor_info N_anchor_info \<longleftrightarrow>
     M_anchor_info ! 1 = M_anchor_info ! 2 \<and> N_anchor_info ! 1 = N_anchor_info ! 2 \<and>
     (M_anchor_info ! 1 sdiv iim_block p) smod M_sub_block config = 0 \<and>
     (N_anchor_info ! 1 sdiv iin_block p) smod N_sub_block config = 0"

definition case1_slice ::
  "matmul_op \<Rightarrow> gen_ctx \<Rightarrow> managed_matmul_core_config_t \<Rightarrow> int list \<Rightarrow> int list \<Rightarrow> int \<Rightarrow> int
     \<Rightarrow> int \<Rightarrow> int \<Rightarrow> slice_range" where
  "case1_slice p g config M_anchor_info N_anchor_info m_idx n_idx m_b_idx n_b_idx =
     (if \<not> C_is_blocking g
      then [(m_idx + m_b_idx * iim_block p, M_anchor_info ! 1 sdiv M_sub_block config),
            (n_idx + n_b_idx * iin_block p, N_anchor_info ! 1 sdiv N_sub_block config)]
      else [((m_idx + m_b_idx * iim_block p) sdiv iim_block p,
             M_anchor_info ! 1 sdiv iim_block p sdiv M_sub_block config),
            ((n_idx + n_b_idx * iin_block p) sdiv iin_block p,
             N_anchor_info ! 1 sdiv iin_block p sdiv N_sub_block config),
            (0, iim_block p), (0, iin_block p)])"

definition multi_slice_lengths ::
  "matmul_op \<Rightarrow> gen_ctx \<Rightarrow> managed_matmul_core_config_t \<Rightarrow> int list \<Rightarrow> int list
     \<Rightarrow> int \<Rightarrow> int \<Rightarrow> int \<Rightarrow> int \<Rightarrow> int \<times> int" where
  "multi_slice_lengths p g config M_anchor_info N_anchor_info pp q i j =
     (if \<not> C_is_blocking g then
        (let length_M0 = M_anchor_info ! nat (pp + 1) sdiv M_sub_block config;
             length_M = (if (M_anchor_info ! nat (pp + 1) sdiv iim_block p) smod M_sub_block config \<noteq> 0
                         then length_M0 + (1 - i) * iim_block p else length_M0);
             length_N0 = N_anchor_info ! nat (q + 1) sdiv N_sub_block config;
             length_N = (if (N_anchor_info ! nat (q + 1) sdiv iin_block p) smod N_sub_block config \<noteq> 0
                         then length_N0 + (1 - j) * iin_block p else length_N0)
         in (length_M, length_N))
      else
        (let length_M0 = M_anchor_info ! nat (pp + 1) sdiv iim_block p sdiv M_sub_block config;
             length_M = (if (M_anchor_info ! nat (pp + 1) sdiv iim_block p) smod M_sub_block config \<noteq> 0
                         then length_M0 + (1 - i) else length_M0);
             length_N0 = N_anchor_info ! nat (q + 1) sdiv iin_block p sdiv N_sub_block config;
             length_N = (if (N_anchor_info ! nat (q + 1) sdiv iin_block p) smod N_sub_block config \<noteq> 0
                         then length_N0 + (1 - j) else length_N0)
         in (length_M, length_N)))"

definition multi_slice_entry ::
  "matmul_op \<Rightarrow> gen_ctx \<Rightarrow> managed_matmul_core_config_t \<Rightarrow> int list \<Rightarrow> int list \<Rightarrow> int \<Rightarrow> int
     \<Rightarrow> int \<Rightarrow> int \<Rightarrow> int \<Rightarrow> int \<Rightarrow> int \<Rightarrow> int \<Rightarrow> slice_range" where
  "multi_slice_entry p g config M_anchor_info N_anchor_info m_idx n_idx m_b_idx n_b_idx pp q i j =
     (let (length_M, length_N) = multi_slice_lengths p g config M_anchor_info N_anchor_info pp q i j
      in if \<not> C_is_blocking g
         then [(m_idx + m_b_idx * iim_block p, length_M), (n_idx + n_b_idx * iin_block p, length_N)]
         else [((m_idx + m_b_idx * iim_block p) sdiv iim_block p, length_M),
               ((n_idx + n_b_idx * iin_block p) sdiv iin_block p, length_N),
               (0, iim_block p), (0, iin_block p)])"

definition mm_multi_slice ::
  "matmul_op \<Rightarrow> gen_ctx \<Rightarrow> managed_matmul_core_config_t \<Rightarrow> int list \<Rightarrow> int list \<Rightarrow> int \<Rightarrow> int
     \<Rightarrow> int \<Rightarrow> int \<Rightarrow> slice_range list" where
  "mm_multi_slice p g config M_anchor_info N_anchor_info m_idx n_idx m_b_idx n_b_idx =
     concat (map (\<lambda>pp. concat (map (\<lambda>q. concat (map (\<lambda>i. map (\<lambda>j.
         multi_slice_entry p g config M_anchor_info N_anchor_info m_idx n_idx m_b_idx n_b_idx pp q i j)
       [0, 1]) [0, 1])) [0, 1])) [0, 1])"

definition anchor_iter ::
  "int list \<Rightarrow> int list \<Rightarrow> int \<Rightarrow> int \<Rightarrow> int \<Rightarrow> int \<Rightarrow> int \<Rightarrow> int \<Rightarrow> int" where
  "anchor_iter M_anchor_info N_anchor_info m_s n_s m_b n_b m_b_bigger_num n_b_bigger_num =
     (if m_s < M_anchor_info ! 0 then
        (if n_s < N_anchor_info ! 0 then
           (if m_b < m_b_bigger_num then (if n_b < n_b_bigger_num then 0 else 1)
            else (if n_b < n_b_bigger_num then 2 else 3))
         else
           (if m_b < m_b_bigger_num then (if n_b < n_b_bigger_num then 4 else 5)
            else (if n_b < n_b_bigger_num then 6 else 7)))
      else
        (if n_s < N_anchor_info ! 0 then
           (if m_b < m_b_bigger_num then (if n_b < n_b_bigger_num then 8 else 9)
            else (if n_b < n_b_bigger_num then 10 else 11))
         else
           (if m_b < m_b_bigger_num then (if n_b < n_b_bigger_num then 12 else 13)
            else (if n_b < n_b_bigger_num then 14 else 15))))"

text \<open>
  The body of the loops over \<open>m_b\<close> and \<open>n_b\<close>, and the function itself. While the IR is
  built \<^verbatim>\<open>get_balance211_length\<close> asserts that each sub-block count is at least one (line 69)
  and the sixteen candidate lengths are asserted positive (lines 408 and 425).
\<close>

definition sub_block_body ::
  "matmul_op \<Rightarrow> gen_ctx \<Rightarrow> managed_matmul_core_config_t \<Rightarrow> int list \<Rightarrow> int list \<Rightarrow> bool
     \<Rightarrow> int \<Rightarrow> int \<Rightarrow> int \<Rightarrow> int \<Rightarrow> int \<Rightarrow> int \<Rightarrow> int \<Rightarrow> int \<Rightarrow> int
     \<Rightarrow> (anchor_site \<times> fusion_anchor) list" where
  "sub_block_body p g config M_anchor_info N_anchor_info is_partial M N m_idx n_idx m_s n_s tid m_b n_b =
     (let (m_o_end, m_b_idx, m_b_bigger_num) =
            balance211 (M sdiv iim_block p) (M_sub_block config) m_b;
          (n_o_end, n_b_idx, n_b_bigger_num) =
            balance211 (N sdiv iin_block p) (N_sub_block config) n_b
      in
        (if fusion g \<and> \<not> is_partial
         then concat (map (inner_block_loops p g config m_idx n_idx m_b_idx n_b_idx m_o_end n_o_end tid)
                [0..K_sub_block config - 1])
         else [])
        @
        (if fusion g \<and> \<not> is_partial
         then [(Sub_block,
                if case1 p config M_anchor_info N_anchor_info
                then Output_anchor
                       (case1_slice p g config M_anchor_info N_anchor_info m_idx n_idx m_b_idx n_b_idx)
                else Iterated_anchor
                       (anchor_iter M_anchor_info N_anchor_info m_s n_s m_b n_b
                          m_b_bigger_num n_b_bigger_num)
                       (mm_multi_slice p g config M_anchor_info N_anchor_info m_idx n_idx
                          m_b_idx n_b_idx))]
         else []))"

definition single_thread_matmul_call ::
  "matmul_op \<Rightarrow> gen_ctx \<Rightarrow> managed_matmul_core_config_t \<Rightarrow> int list \<Rightarrow> int list \<Rightarrow> bool
     \<Rightarrow> error + (int \<Rightarrow> int \<Rightarrow> int \<Rightarrow> int \<Rightarrow> int \<Rightarrow> int \<Rightarrow> int \<Rightarrow> (anchor_site \<times> fusion_anchor) list)" where
  "single_thread_matmul_call p g config M_anchor_info N_anchor_info is_partial =
     (if M_sub_block config < 1 \<or> N_sub_block config < 1 \<or> K_sub_block config < 1
      then Inl AssertionFailed
      else if fusion g \<and> \<not> is_partial \<and> \<not> case1 p config M_anchor_info N_anchor_info \<and>
              (\<exists>pp\<in>{0, 1}. \<exists>q\<in>{0, 1}. \<exists>i\<in>{0, 1}. \<exists>j\<in>{0, 1}.
                 \<not> (fst (multi_slice_lengths p g config M_anchor_info N_anchor_info pp q i j) > 0 \<and>
                    snd (multi_slice_lengths p g config M_anchor_info N_anchor_info pp q i j) > 0))
      then Inl AssertionFailed
      else Inr (\<lambda>M N m_idx n_idx m_s n_s tid.
             concat (map (\<lambda>m_b. concat (map (\<lambda>n_b.
                 sub_block_body p g config M_anchor_info N_anchor_info is_partial
                   M N m_idx n_idx m_s n_s tid m_b n_b)
               [0..N_sub_block config - 1])) [0..M_sub_block config - 1])))"

subsection \<open>The reduction phase (lines 755-816)\<close>

text \<open>
  The events of the reduction, in program order: \<^verbatim>\<open>mem_zero\<close> of a block,
  \<^verbatim>\<open>dnnl_brgemm_init\<close> of a tile with value 0, and the addition of a span of slot \<open>lks\<close>
  of the temporary buffer to the output. \<open>for_range lo hi step\<close> lists the values of a loop
  variable; a loop with a non-positive step is given no iteration.
\<close>

datatype reduce_event =
    Mem_zero "int list" int
  | Brgemm_init "int list" int int int
  | Add_slot int "int list" int

function for_range :: "int \<Rightarrow> int \<Rightarrow> int \<Rightarrow> int list" where
  "for_range lo hi step = (if step \<le> 0 \<or> hi \<le> lo then [] else lo # for_range (lo + step) hi step)"
  by pat_completeness auto
termination
  by (relation "measure (\<lambda>(lo, hi, step). nat (hi - lo))") auto

definition reduce_tile_blocking ::
  "matmul_op \<Rightarrow> gen_sizes \<Rightarrow> int \<Rightarrow> int \<Rightarrow> int \<Rightarrow> int \<Rightarrow> int \<Rightarrow> int \<Rightarrow> reduce_event list" where
  "reduce_tile_blocking p gs K_real_split lanes N_single_thr_num_block m_idx n_idx lm_ln =
     (let lm = lm_ln sdiv N_single_thr_num_block;
          ln = lm_ln smod N_single_thr_num_block
      in if m_idx < g_M gs \<and> n_idx < g_N gs
         then Mem_zero [m_idx sdiv iim_block p + lm, n_idx sdiv iin_block p + ln, 0, 0]
                (iim_block p * iin_block p)
            # concat (map (\<lambda>lks. concat (map (\<lambda>lmo. map (\<lambda>lno.
                  Add_slot lks [m_idx sdiv iim_block p + lm, n_idx sdiv iin_block p + ln, lmo, lno]
                    lanes)
                (for_range 0 (iin_block p) lanes)) [0..iim_block p - 1])) [0..K_real_split - 1])
         else [])"

definition reduce_blocking ::
  "matmul_op \<Rightarrow> gen_sizes \<Rightarrow> int \<Rightarrow> int \<Rightarrow> int \<Rightarrow> int \<Rightarrow> int \<Rightarrow> int \<Rightarrow> reduce_event list" where
  "reduce_blocking p gs K_real_split lanes M_single_thr_size N_single_thr_size m_idx n_idx =
     (let M_single_thr_num_block = divide_and_ceil M_single_thr_size (iim_block p);
          N_single_thr_num_block = divide_and_ceil N_single_thr_size (iin_block p)
      in concat (map (reduce_tile_blocking p gs K_real_split lanes N_single_thr_num_block m_idx n_idx)
           [0..M_single_thr_num_block * N_single_thr_num_block - 1]))"

definition reduce_elem_plain ::
  "gen_sizes \<Rightarrow> int \<Rightarrow> int \<Rightarrow> int \<Rightarrow> int \<Rightarrow> int \<Rightarrow> reduce_event list" where
  "reduce_elem_plain gs lanes N_single_thr_size m_idx n_idx lm_ln =
     (let lm = lm_ln sdiv N_single_thr_size;
          ln = lm_ln smod N_single_thr_size
      in concat (map (\<lambda>lks.
           if m_idx < g_M gs \<and> n_idx < g_N gs
           then [Add_slot lks [m_idx + lm, n_idx + ln] lanes] else [])
         [0..K_split_num gs - 1]))"

definition reduce_plain ::
  "matmul_op \<Rightarrow> gen_sizes \<Rightarrow> int \<Rightarrow> int \<Rightarrow> int \<Rightarrow> int \<Rightarrow> int \<Rightarrow> reduce_event list" where
  "reduce_plain p gs lanes M_single_thr_size N_single_thr_size m_idx n_idx =
     (if m_idx < g_M gs \<and> n_idx < g_N gs
      then [Brgemm_init [m_idx, n_idx] M_single_thr_size N_single_thr_size (g_N gs)] else [])
     @ concat (map (reduce_elem_plain gs lanes N_single_thr_size m_idx n_idx)
         (for_range 0 (M_single_thr_size * N_single_thr_size) lanes))"

subsection \<open>\<^verbatim>\<open>generate\<close> (lines 509-928)\<close>

text \<open>
  The plan keeps the sizes, the configuration, the three real split numbers, the shape of the
  temporary buffer when there is one, the anchors created in the body of thread
  \<open>(m_s, n_s)\<close> by \<^verbatim>\<open>single_thread_matmul_call\<close>, and the reduction events of that thread.
  The checks come in the order of the source: the sizes, the three \<^verbatim>\<open>COMPILE_ASSERT\<close>s on the
  sub-blocks (lines 548-556), the format of B (lines 558-570), the real splits (lines
  578-583), the assertions of \<^verbatim>\<open>get_balance211_length\<close> on the split numbers, and
  \<^verbatim>\<open>single_thread_matmul_call\<close>. With \<^verbatim>\<open>K_split_num = 1\<close> the loop over \<open>k_s\<close> runs to
  \<^verbatim>\<open>K_split_num\<close> (line 601); otherwise it runs to \<^verbatim>\<open>K_real_split\<close>, the call is partial and
  writes to a temporary buffer whose shape is the blocking dims of the output with
  \<^verbatim>\<open>K_real_split\<close> in front (lines 717-719), and the reduction follows.
\<close>

record loop_plan =
  plan_sizes :: gen_sizes
  plan_config :: managed_matmul_core_config_t
  M_real_split :: int
  N_real_split :: int
  K_real_split :: int
  out_tmp_buf_shape :: "int list option"
  thread_body :: "int \<Rightarrow> int \<Rightarrow> int \<Rightarrow> (anchor_site \<times> fusion_anchor) list"
  reduce_body :: "int \<Rightarrow> int \<Rightarrow> reduce_event list"

definition thread_extent :: "int \<Rightarrow> int \<Rightarrow> int \<Rightarrow> int \<Rightarrow> int \<times> int" where
  "thread_extent X block split_num s =
     (let (len, start, X_bigger_num) = balance211 (X sdiv block) split_num s
      in (len * block, start * block))"

definition check_sub_blocks ::
  "matmul_op \<Rightarrow> managed_matmul_core_config_t \<Rightarrow> gen_sizes \<Rightarrow> error + unit" where
  "check_sub_blocks p config gs =
     (if \<not> (M_block_size gs sdiv iim_block p \<ge> M_sub_block config \<and>
            M_ib_block_size gs sdiv iim_block p \<ge> M_sub_block config)
      then Inl Bad_M_sub_block
      else if \<not> (N_block_size gs sdiv iin_block p \<ge> N_sub_block config \<and>
                  N_ib_block_size gs sdiv iin_block p \<ge> N_sub_block config)
      then Inl Bad_N_sub_block
      else if \<not> (K_block_size gs sdiv iik_block p \<ge> K_sub_block config \<and>
                  K_ib_block_size gs sdiv iik_block p \<ge> K_sub_block config)
      then Inl Bad_K_sub_block
      else Inr ())"

definition dtype_block :: "gen_ctx \<Rightarrow> int" where
  "dtype_block g = (if B_dtype g = bf16 then 2 else if B_dtype g = u8 \<or> B_dtype g = s8 then 4 else 1)"

definition check_B_format :: "gen_ctx \<Rightarrow> error + unit" where
  "check_B_format g =
     (if dtype_block g > 1 \<and> \<not> (B_format_blocks_2 g = - 1 \<or> B_format_blocks_2 g = dtype_block g)
      then Inl Wrong_data_format_of_B else Inr ())"

definition real_split :: "int \<Rightarrow> int \<Rightarrow> int \<Rightarrow> error + int" where
  "real_split X block split_num =
     bind_res (utils_divide_and_ceil X block) (\<lambda>c. Inr (min c split_num))"

definition vector_lanes :: "matmul_op \<Rightarrow> gen_ctx \<Rightarrow> int" where
  "vector_lanes p g =
     (if iin_block p sdiv 16 \<noteq> 0 \<and> iin_block p smod 16 = 0 then vectorize_step_16 g else 1)"

definition thread_loop ::
  "matmul_op \<Rightarrow> managed_matmul_core_config_t \<Rightarrow> gen_sizes \<Rightarrow> int
     \<Rightarrow> (int \<Rightarrow> int \<Rightarrow> int \<Rightarrow> int \<Rightarrow> int \<Rightarrow> int \<Rightarrow> int \<Rightarrow> (anchor_site \<times> fusion_anchor) list)
     \<Rightarrow> int \<Rightarrow> int \<Rightarrow> int \<Rightarrow> (anchor_site \<times> fusion_anchor) list" where
  "thread_loop p config gs k_iters body m_s n_s tid =
     (let (M_single_thr_size, m_idx) =
            thread_extent (g_M gs) (iim_block p) (M_split_num config) m_s;
          (N_single_thr_size, n_idx) =
            thread_extent (g_N gs) (iin_block p) (N_split_num config) n_s
      in concat (map (\<lambda>k_s. body M_single_thr_size N_single_thr_size m_idx n_idx m_s n_s tid)
           [0..k_iters - 1]))"

definition reduce_phase ::
  "matmul_op \<Rightarrow> gen_ctx \<Rightarrow> managed_matmul_core_config_t \<Rightarrow> gen_sizes \<Rightarrow> int
     \<Rightarrow> int \<Rightarrow> int \<Rightarrow> reduce_event list" where
  "reduce_phase p g config gs K_real m_s n_s =
     (let (M_single_thr_size, m_idx) =
            thread_extent (g_M gs) (iim_block p) (M_split_num config) m_s;
          (N_single_thr_size, n_idx) =
            thread_extent (g_N gs) (iin_block p) (N_split_num config) n_s
      in if C_is_blocking g
         then reduce_blocking p gs K_real (vector_lanes p g) M_single_thr_size N_single_thr_size
                m_idx n_idx
         else reduce_plain p gs (vector_lanes p g) M_single_thr_size N_single_thr_size m_idx n_idx)"

definition build_loops ::
  "matmul_op \<Rightarrow> gen_ctx \<Rightarrow> managed_matmul_core_config_t \<Rightarrow> gen_sizes \<Rightarrow> error + loop_plan" where
  "build_loops p g config gs =
     bind_res (real_split (g_M gs) (iim_block p) (M_split_num config)) (\<lambda>M_real.
     bind_res (real_split (g_N gs) (iin_block p) (N_split_num config)) (\<lambda>N_real.
     bind_res (real_split (g_K gs) (iik_block p) (K_split_num gs)) (\<lambda>K_real.
       let M_anchor_info = [M_blk_num gs, M_block_size gs, M_ib_block_size gs];
           N_anchor_info = [N_blk_num gs, N_block_size gs, N_ib_block_size gs];
           is_partial = (K_split_num gs \<noteq> 1)
       in
       if M_split_num config < 1 \<or> N_split_num config < 1 \<or> (is_partial \<and> K_split_num gs < 1)
       then Inl AssertionFailed
       else
     bind_res (single_thread_matmul_call p g config M_anchor_info N_anchor_info is_partial) (\<lambda>body.
       Inr \<lparr>plan_sizes = gs, plan_config = config,
            M_real_split = M_real, N_real_split = N_real, K_real_split = K_real,
            out_tmp_buf_shape = (if is_partial then Some (K_real # C_blocking_dims g) else None),
            thread_body = thread_loop p config gs (if is_partial then K_real else K_split_num gs) body,
            reduce_body = (if is_partial then reduce_phase p g config gs K_real
                           else (\<lambda>m_s n_s. []))\<rparr>))))"

definition generate ::
  "matmul_op \<Rightarrow> gen_ctx \<Rightarrow> managed_matmul_core_config_t \<Rightarrow> error + loop_plan" where
  "generate p g config =
     bind_res (generate_sizes p config) (\<lambda>gs.
     bind_res (check_sub_blocks p config gs) (\<lambda>_.
     bind_res (check_B_format g) (\<lambda>_.
       build_loops p g config gs)))"

subsection \<open>Regions, tilings and the slots of the reduction\<close>

text \<open>
  The cells of the padded output covered by a slice; the slices of the anchors created at a
  site; a list of sets tiles a set when its union is the set and its members are pairwise
  disjoint; the region of the padded output assigned to thread \<open>(m_s, n_s)\<close> (lines 592-600);
  \<open>cover c rs\<close> counts the sets of \<open>rs\<close> holding \<open>c\<close>.
\<close>

definition slice_cells :: "slice_range \<Rightarrow> (int \<times> int) set" where
  "slice_cells sl =
     (case sl of
        [(m0, ml), (n0, nl)] \<Rightarrow> {m0..<m0 + ml} \<times> {n0..<n0 + nl}
      | [(bm, bl), (bn, nl), (i0, il), (j0, jl)] \<Rightarrow>
          (\<lambda>((b, i), (c, j)). (b * il + i, c * jl + j)) `
            (({bm..<bm + bl} \<times> {i0..<i0 + il}) \<times> ({bn..<bn + nl} \<times> {j0..<j0 + jl}))
      | _ \<Rightarrow> {})"

definition anchors_at :: "anchor_site \<Rightarrow> (anchor_site \<times> fusion_anchor) list \<Rightarrow> slice_range list" where
  "anchors_at site tr = map (\<lambda>e. anchor_slice (snd e)) (filter (\<lambda>e. fst e = site) tr)"

definition tiles :: "'a set list \<Rightarrow> 'a set \<Rightarrow> bool" where
  "tiles rs R \<longleftrightarrow>
     \<Union> (set rs) = R \<and> (\<forall>i<length rs. \<forall>j<length rs. i \<noteq> j \<longrightarrow> rs ! i \<inter> rs ! j = {})"

definition thread_region ::
  "matmul_op \<Rightarrow> gen_sizes \<Rightarrow> managed_matmul_core_config_t \<Rightarrow> int \<Rightarrow> int \<Rightarrow> (int \<times> int) set" where
  "thread_region p gs config m_s n_s =
     (let (M_single_thr_size, m_idx) = thread_extent (g_M gs) (iim_block p) (M_split_num config) m_s;
          (N_single_thr_size, n_idx) = thread_extent (g_N gs) (iin_block p) (N_split_num config) n_s
      in {m_idx..<m_idx + M_single_thr_size} \<times> {n_idx..<n_idx + N_single_thr_size})"

definition cover :: "'a \<Rightarrow> 'a set list \<Rightarrow> nat" where
  "cover c rs = sum_list (map (\<lambda>r. of_bool (c \<in> r)) rs)"

text \<open>
  \<open>padded x b\<close> is \<open>x\<close> rounded up to a multiple of \<open>b\<close> and \<open>n_blocks x b\<close> the number of
  blocks; a thread is evenly sub-divided when the sub-block counts divide its numbers of
  blocks.
\<close>

definition padded :: "int \<Rightarrow> int \<Rightarrow> int" where
  "padded x b = (x + b - 1) div b * b"

definition n_blocks :: "int \<Rightarrow> int \<Rightarrow> int" where
  "n_blocks x b = (x + b - 1) div b"

definition evenly_sub_divided ::
  "matmul_op \<Rightarrow> gen_sizes \<Rightarrow> managed_matmul_core_config_t \<Rightarrow> int \<Rightarrow> int \<Rightarrow> bool" where
  "evenly_sub_divided p gs config m_s n_s =
     (let (M_single_thr_size, m_idx) = thread_extent (g_M gs) (iim_block p) (M_split_num config) m_s;
          (N_single_thr_size, n_idx) = thread_extent (g_N gs) (iin_block p) (N_split_num config) n_s
      in (M_single_thr_size sdiv iim_block p) smod M_sub_block config = 0 \<and>
         (N_single_thr_size sdiv iin_block p) smod N_sub_block config = 0)"

text \<open>
  The slots of the temporary buffer read by a list of reduction events, in program order.
\<close>

fun slots_read :: "reduce_event list \<Rightarrow> int list" where
  "slots_read [] = []"
| "slots_read (Add_slot lks idx lanes # es) = lks # slots_read es"
| "slots_read (Mem_zero pos sz # es) = slots_read es"
| "slots_read (Brgemm_init pos M N ld # es) = slots_read es"

section \<open>The balanced partition (balance211)\<close>

text \<open>
  On non-negative operands the truncating division of the source is the flooring
  division of HOL.
\<close>

lemma sdiv_nonneg: "0 \<le> a \<Longrightarrow> 0 \<le> b \<Longrightarrow> a sdiv b = a div (b::int)"
  by (simp add: signed_divide_int_def sgn_if)

lemma smod_nonneg: "0 \<le> a \<Longrightarrow> 0 \<le> b \<Longrightarrow> a smod b = a mod (b::int)"
  by (simp add: signed_modulo_int_def sgn_if)

lemma divide_and_ceil_pos:
  assumes "0 < n" "0 < d"
  shows "divide_and_ceil n d = (n - 1) div d + 1"
proof -
  have "divide_and_ceil n d = (n + d - 1) div d"
    using assms by (simp add: divide_and_ceil_def sdiv_nonneg)
  also have "n + d - 1 = (n - 1) + d" by simp
  also have "((n - 1) + d) div d = (n - 1) div d + 1"
    using assms by simp
  finally show ?thesis .
qed

lemma divide_and_ceil_ceiling:
  assumes "0 < n" "0 < d"
  shows "divide_and_ceil n d = \<lceil>real_of_int n / real_of_int d\<rceil>"
proof -
  define q r where "q = (n - 1) div d" and "r = (n - 1) mod d"
  have r: "0 \<le> r" "r < d" using assms by (simp_all add: r_def)
  have "d * q + r = n - 1" unfolding q_def r_def by (rule mult_div_mod_eq)
  then have "- n = d * (- q - 1) + (d - 1 - r)" by (simp add: algebra_simps)
  moreover have "0 \<le> d - 1 - r" "d - 1 - r < d" using r by simp_all
  ultimately have "(- n) div d = - q - 1" by (rule int_div_pos_eq)
  then have "(- n) div d = - ((n - 1) div d) - 1" by (simp add: q_def)
  then show ?thesis
    using assms by (simp add: divide_and_ceil_pos ceiling_divide_eq_div)
qed

lemma bal_bigger_num_eq:
  "bal_bigger_num n team = n - (divide_and_ceil n team - 1) * team"
  by (simp add: bal_bigger_num_def balance211_def Let_def)

lemma bigger_num_range:
  assumes "0 < n" "0 < team"
  shows "bal_bigger_num n team = (n - 1) mod team + 1"
    and "0 < bal_bigger_num n team" and "bal_bigger_num n team \<le> team"
proof -
  show eq: "bal_bigger_num n team = (n - 1) mod team + 1"
    using assms by (simp add: bal_bigger_num_eq divide_and_ceil_pos minus_div_mult_eq_mod [symmetric] algebra_simps)
  show "0 < bal_bigger_num n team" using assms by (simp add: eq add_pos_nonneg)
  have "(n - 1) mod team < team" using assms by simp
  then show "bal_bigger_num n team \<le> team" by (simp add: eq)
qed


lemma balance211_closed:
  assumes "0 < n" "0 < team"
  shows "balance211 n team idx =
     ((n - 1) div team + (if idx < bal_bigger_num n team then 1 else 0),
      idx * ((n - 1) div team) + min idx (bal_bigger_num n team),
      bal_bigger_num n team)"
  using assms
  by (simp add: balance211_def bal_bigger_num_eq Let_def divide_and_ceil_pos algebra_simps min_def)

lemma bal_length_closed:
  "0 < n \<Longrightarrow> 0 < team \<Longrightarrow>
   bal_length n team idx = (n - 1) div team + (if idx < bal_bigger_num n team then 1 else 0)"
  by (simp add: bal_length_def balance211_closed)

lemma bal_start_closed:
  "0 < n \<Longrightarrow> 0 < team \<Longrightarrow>
   bal_start n team idx = idx * ((n - 1) div team) + min idx (bal_bigger_num n team)"
  by (simp add: bal_start_def balance211_closed)

lemma bal_length_nonneg: "0 < n \<Longrightarrow> 0 < team \<Longrightarrow> 0 \<le> bal_length n team idx"
  by (simp add: bal_length_closed pos_imp_zdiv_nonneg_iff)

lemma bal_start_step:
  "0 < n \<Longrightarrow> 0 < team \<Longrightarrow>
   bal_start n team (idx + 1) = bal_start n team idx + bal_length n team idx"
  by (simp add: bal_start_closed bal_length_closed algebra_simps min_def)

lemma bal_start_0: "0 < n \<Longrightarrow> 0 < team \<Longrightarrow> bal_start n team 0 = 0"
  using bigger_num_range(2)[of n team] by (simp add: bal_start_closed)

lemma bal_start_team: 
  assumes "0 < n" "0 < team" shows "bal_start n team team = n"
proof -
  have "min team (bal_bigger_num n team) = bal_bigger_num n team"
    using assms bigger_num_range(3)[of n team] by simp
  then have "bal_start n team team = team * ((n - 1) div team) + ((n - 1) mod team + 1)"
    using assms bigger_num_range(1)[of n team] by (simp only: bal_start_closed)
  also have "\<dots> = (team * ((n - 1) div team) + (n - 1) mod team) + 1" by simp
  also have "\<dots> = n" by (simp only: mult_div_mod_eq)
  finally show ?thesis .
qed

lemma chain_mono:
  fixes f :: "int \<Rightarrow> int"
  assumes step: "\<And>i. 0 \<le> i \<Longrightarrow> i < t \<Longrightarrow> f i \<le> f (i + 1)"
    and "0 \<le> i" "i \<le> j" "j \<le> t"
  shows "f i \<le> f j"
  using \<open>i \<le> j\<close> \<open>j \<le> t\<close>
proof (induction j rule: int_ge_induct)
  case base
  then show ?case by simp
next
  case (step k)
  then have "f i \<le> f k" by simp
  moreover have "f k \<le> f (k + 1)" using step assms(1)[of k] \<open>0 \<le> i\<close> by simp
  ultimately show ?case by simp
qed

lemma chain_cover:
  fixes f :: "int \<Rightarrow> int"
  assumes "0 \<le> t" "f 0 \<le> x" "x < f t"
  shows "\<exists>i. 0 \<le> i \<and> i < t \<and> f i \<le> x \<and> x < f (i + 1)"
  using assms(1,3)
proof (induction t rule: int_ge_induct)
  case base
  then show ?case using assms(2) by simp
next
  case (step k)
  show ?case
  proof (cases "x < f k")
    case True
    then obtain i where "0 \<le> i" "i < k" "f i \<le> x" "x < f (i + 1)" using step by blast
    then show ?thesis by (intro exI[of _ i]) simp
  next
    case False
    then show ?thesis using step by (intro exI[of _ k]) simp
  qed
qed

lemma sum_bal_length:
  assumes "0 < n" "0 < team"
  shows "(\<Sum>idx = 0..<team. bal_length n team idx) = n"
proof -
  have tele: "0 \<le> t \<Longrightarrow> (\<Sum>idx = 0..<t. bal_length n team idx) = bal_start n team t" for t
  proof (induction t rule: int_ge_induct)
    case base
    then show ?case using assms by (simp add: bal_start_0)
  next
    case (step k)
    have "{0..<k + 1} = insert k {0..<k}" using step by auto
    then show ?case using step assms by (simp add: bal_start_step)
  qed
  show ?thesis using tele[of team] assms by (simp add: bal_start_team)
qed


lemma bal_interval_union:
  assumes "0 < n" "0 < team"
  shows "(\<Union>idx\<in>{0..<team}. {bal_start n team idx ..< bal_start n team idx + bal_length n team idx}) = {0..<n}"
proof (intro equalityI subsetI)
  fix x assume "x \<in> (\<Union>idx\<in>{0..<team}. {bal_start n team idx ..< bal_start n team idx + bal_length n team idx})"
  then obtain i where i: "0 \<le> i" "i < team" "bal_start n team i \<le> x" "x < bal_start n team (i + 1)"
    using assms by (auto simp: bal_start_step)
  have step: "\<And>k. 0 \<le> k \<Longrightarrow> k < team \<Longrightarrow> bal_start n team k \<le> bal_start n team (k + 1)"
    using assms by (simp add: bal_start_step bal_length_nonneg)
  have "bal_start n team 0 \<le> bal_start n team i"
    using chain_mono[of team "bal_start n team" 0 i] step i by simp
  moreover have "bal_start n team (i + 1) \<le> bal_start n team team"
    using chain_mono[of team "bal_start n team" "i + 1" team] step i by simp
  ultimately show "x \<in> {0..<n}" using i assms by (simp add: bal_start_0 bal_start_team)
next
  fix x assume "x \<in> {0..<n}"
  then have "bal_start n team 0 \<le> x" "x < bal_start n team team"
    using assms by (simp_all add: bal_start_0 bal_start_team)
  then obtain i where "0 \<le> i" "i < team" "bal_start n team i \<le> x" "x < bal_start n team (i + 1)"
    using chain_cover[of team "bal_start n team" x] assms by auto
  then show "x \<in> (\<Union>idx\<in>{0..<team}. {bal_start n team idx ..< bal_start n team idx + bal_length n team idx})"
    using assms by (auto simp: bal_start_step)
qed

lemma bal_interval_disjoint:
  assumes "0 < n" "0 < team" "0 \<le> i" "i < j" "j < team"
  shows "{bal_start n team i ..< bal_start n team i + bal_length n team i} \<inter>
         {bal_start n team j ..< bal_start n team j + bal_length n team j} = {}"
proof -
  have step: "\<And>k. 0 \<le> k \<Longrightarrow> k < team \<Longrightarrow> bal_start n team k \<le> bal_start n team (k + 1)"
    using assms by (simp add: bal_start_step bal_length_nonneg)
  have "bal_start n team (i + 1) \<le> bal_start n team j"
    using chain_mono[of team "bal_start n team" "i + 1" j] step assms by simp
  then show ?thesis using assms by (auto simp: bal_start_step)
qed


text \<open>
  Claim C2. For \<open>n > 0\<close> and \<open>team > 0\<close>, with \<open>n1 = ceil(n / team)\<close>,
  \<open>n2 = n1 - 1\<close> and \<open>T1 = n - n2 * team\<close>: \<^verbatim>\<open>get_balance211_length\<close> gives a
  worker \<open>idx < T1\<close> the length \<open>n1\<close> from \<open>idx * n1\<close> and a worker \<open>idx \<ge> T1\<close>
  the length \<open>n2\<close> from \<open>T1 * n1 + (idx - T1) * n2\<close>; the lengths sum to \<open>n\<close>, each
  is \<open>n1\<close> or \<open>n1 - 1\<close>, and the intervals \<open>[start, start + length)\<close> are
  consecutive, pairwise disjoint and cover exactly \<open>[0, n)\<close>.
\<close>

theorem get_balance211_length_partition:
  assumes "0 < n" and "0 < team"
    and "n1 = \<lceil>real_of_int n / real_of_int team\<rceil>" and "n2 = n1 - 1" and "T1 = n - n2 * team"
  shows "(\<forall>idx\<in>{0..<team}. get_balance211_length n team idx =
            Inr (if idx < T1 then n1 else n2,
                 if idx < T1 then idx * n1 else T1 * n1 + (idx - T1) * n2,
                 T1))
       \<and> (\<Sum>idx = 0..<team. bal_length n team idx) = n
       \<and> (\<forall>idx\<in>{0..<team}. bal_length n team idx = n1 \<or> bal_length n team idx = n1 - 1)
       \<and> bal_start n team 0 = 0
       \<and> (\<forall>idx\<in>{0..<team}. 0 \<le> bal_length n team idx \<and>
            bal_start n team idx + bal_length n team idx =
              (if idx + 1 < team then bal_start n team (idx + 1) else n))
       \<and> (\<Union>idx\<in>{0..<team}.
            {bal_start n team idx ..< bal_start n team idx + bal_length n team idx}) = {0..<n}
       \<and> (\<forall>i\<in>{0..<team}. \<forall>j\<in>{0..<team}. i \<noteq> j \<longrightarrow>
            {bal_start n team i ..< bal_start n team i + bal_length n team i} \<inter>
            {bal_start n team j ..< bal_start n team j + bal_length n team j} = {})"
proof (intro conjI)
  have n1: "n1 = divide_and_ceil n team"
    using assms by (simp add: divide_and_ceil_ceiling)
  show "\<forall>idx\<in>{0..<team}. get_balance211_length n team idx =
            Inr (if idx < T1 then n1 else n2,
                 if idx < T1 then idx * n1 else T1 * n1 + (idx - T1) * n2, T1)"
    using assms(2,4,5) n1 by (auto simp: get_balance211_length_def balance211_def Let_def)
  show "(\<Sum>idx = 0..<team. bal_length n team idx) = n"
    using assms(1,2) by (rule sum_bal_length)
  show "\<forall>idx\<in>{0..<team}. bal_length n team idx = n1 \<or> bal_length n team idx = n1 - 1"
    using n1 by (simp add: bal_length_def balance211_def Let_def)
  show "bal_start n team 0 = 0" using assms by (simp add: bal_start_0)
  show "\<forall>idx\<in>{0..<team}. 0 \<le> bal_length n team idx \<and>
            bal_start n team idx + bal_length n team idx =
              (if idx + 1 < team then bal_start n team (idx + 1) else n)"
  proof
    fix idx assume "idx \<in> {0..<team}"
    then have "idx + 1 < team \<or> idx + 1 = team" by auto
    then show "0 \<le> bal_length n team idx \<and>
            bal_start n team idx + bal_length n team idx =
              (if idx + 1 < team then bal_start n team (idx + 1) else n)"
      using assms(1,2) bal_start_step[of n team idx] bal_start_team[of n team]
      by (auto simp: bal_length_nonneg)
  qed
  show "(\<Union>idx\<in>{0..<team}.
            {bal_start n team idx ..< bal_start n team idx + bal_length n team idx}) = {0..<n}"
    using assms by (simp add: bal_interval_union)
  show "\<forall>i\<in>{0..<team}. \<forall>j\<in>{0..<team}. i \<noteq> j \<longrightarrow>
            {bal_start n team i ..< bal_start n team i + bal_length n team i} \<inter>
            {bal_start n team j ..< bal_start n team j + bal_length n team j} = {}"
  proof (intro ballI impI)
    fix i j assume ij: "i \<in> {0..<team}" "j \<in> {0..<team}" "i \<noteq> j"
    then consider "i < j" | "j < i" by linarith
    then show "{bal_start n team i ..< bal_start n team i + bal_length n team i} \<inter>
            {bal_start n team j ..< bal_start n team j + bal_length n team j} = {}"
    proof cases
      case 1
      then show ?thesis using bal_interval_disjoint[of n team i j] assms ij by simp
    next
      case 2
      then show ?thesis using bal_interval_disjoint[of n team j i] assms ij by (simp add: Int_commute)
    qed
  qed
qed

text \<open>Seven granules over three workers: lengths 3, 2, 2 from 0, 3, 5.\<close>

theorem get_balance211_length_partition_witness:
  "(0::int) < 7 \<and> (0::int) < 3 \<and> (3::int) = \<lceil>real_of_int 7 / real_of_int 3\<rceil>
   \<and> get_balance211_length 7 3 0 = Inr (3, 0, 1)
   \<and> get_balance211_length 7 3 1 = Inr (2, 3, 1)
   \<and> get_balance211_length 7 3 2 = Inr (2, 5, 1)
   \<and> (\<Sum>idx = 0..<3. bal_length 7 3 idx) = 7"
proof -
  have c: "(3::int) = \<lceil>real_of_int 7 / real_of_int 3\<rceil>" by simp
  have h: "(0::int) < 7" "(0::int) < 3" "(2::int) = 3 - 1" "(1::int) = 7 - 2 * 3" by simp_all
  note a = get_balance211_length_partition[OF h(1) h(2) c h(3) h(4)]
  note a1 = a[THEN conjunct1]
  have "get_balance211_length 7 3 0 = Inr (3, 0, 1)" using bspec[OF a1, of 0] by simp
  moreover have "get_balance211_length 7 3 1 = Inr (2, 3, 1)" using bspec[OF a1, of 1] by simp
  moreover have "get_balance211_length 7 3 2 = Inr (2, 5, 1)" using bspec[OF a1, of 2] by simp
  moreover note a[THEN conjunct2, THEN conjunct1]
  ultimately show ?thesis using c by simp
qed

section \<open>Rolling the inner blocks by the thread id\<close>

lemma rotation_bij:
  fixes tid c :: int
  assumes "0 \<le> tid"
  shows "bij_betw (\<lambda>b. (b + tid) smod c) {0..<c} {0..<c}"
proof (cases "0 < c")
  case False
  then have "{0..<c} = {}" by auto
  then show ?thesis by (simp add: bij_betw_def)
next
  case True
  have eq: "(b + tid) smod c = (b + tid) mod c" if "b \<in> {0..<c}" for b
    using that assms True by (simp add: smod_nonneg)
  have "bij_betw (\<lambda>b. (b + tid) mod c) {0..<c} {0..<c}"
  proof (rule bij_betw_byWitness[where f' = "\<lambda>y. (y - tid) mod c"])
    show "\<forall>a\<in>{0..<c}. ((a + tid) mod c - tid) mod c = a"
      by (simp add: mod_diff_left_eq)
    show "\<forall>a'\<in>{0..<c}. ((a' - tid) mod c + tid) mod c = a'"
      by (simp add: mod_add_left_eq)
    show "(\<lambda>b. (b + tid) mod c) ` {0..<c} \<subseteq> {0..<c}" using True by auto
    show "(\<lambda>y. (y - tid) mod c) ` {0..<c} \<subseteq> {0..<c}" using True by auto
  qed
  then show ?thesis using eq by (subst bij_betw_cong[where g = "\<lambda>b. (b + tid) mod c"]) simp_all
qed

lemma rotation_image: "0 \<le> tid \<Longrightarrow> (\<lambda>b. (b + tid) smod c) ` {0..<c} = {0..<c::int}"
  using rotation_bij[of tid c] by (simp add: bij_betw_def)

lemma atLeastAtMost_minus1: "{a..c - 1} = {a..<c::int}"
  by auto

lemma set_visited_blocks:
  assumes "0 \<le> tid"
  shows "set (visited_blocks p m_idx n_idx m_b_idx n_b_idx m_o_end n_o_end tid) =
     (\<lambda>(a, b). (m_idx + m_b_idx * iim_block p + a * iim_block p,
                 n_idx + n_b_idx * iin_block p + b * iin_block p)) `
       ({0..<m_o_end} \<times> {0..<n_o_end})"
    (is "?L = ?h ` (?A \<times> ?B)")
proof -
  let ?f = "\<lambda>b. (b + tid) smod m_o_end" and ?g = "\<lambda>b. (b + tid) smod n_o_end"
  have "?L = (\<lambda>(a, b). ?h (?f a, ?g b)) ` (?A \<times> ?B)"
    by (auto simp: visited_blocks_def m_start_idx_def n_start_idx_def atLeastAtMost_minus1)
  also have "\<dots> = ?h ` (?f ` ?A \<times> ?g ` ?B)"
    by (auto simp: image_iff)
  also have "\<dots> = ?h ` (?A \<times> ?B)"
    using assms by (simp only: rotation_image)
  finally show ?thesis .
qed

text \<open>
  Claim C9. For a thread id \<open>tid \<ge> 0\<close> and a positive block count \<open>c\<close> the map
  \<open>b \<mapsto> (b + tid) % c\<close> is a bijection on \<open>[0, c)\<close>, and the set of
  \<open>(m_start_idx, n_start_idx)\<close> positions visited in a sub-block is the same for any
  two thread ids; only the order of the list differs.
\<close>

theorem rotation_visits_same_blocks:
  assumes "0 \<le> tid" and "0 \<le> tid'" and "0 < c"
  shows "bij_betw (\<lambda>b. (b + tid) smod c) {0..<c} {0..<c::int}
       \<and> set (visited_blocks p m_idx n_idx m_b_idx n_b_idx m_o_end n_o_end tid) =
         set (visited_blocks p m_idx n_idx m_b_idx n_b_idx m_o_end n_o_end tid')"
  using assms by (simp add: rotation_bij set_visited_blocks)


text \<open>Three by two blocks of 64 from block row 2: thread 1 starts one block later.\<close>

theorem rotation_visits_same_blocks_witness:
  "(0::int) \<le> 1 \<and> (0::int) \<le> 0 \<and> (0::int) < 3
   \<and> bij_betw (\<lambda>b. (b + 1) smod 3) {0..<3::int} {0..<3}
   \<and> visited_blocks
       \<lparr>num_threads = 4, iim_block = 64, iin_block = 64, iik_block = 64,
        plain_M = 1024, plain_K = 256, plain_N = 1024, is_int8 = False, sizeofdtypeA = 4,
        sizeofdtypeC = 4, L2_size = 1048576\<rparr>
       0 0 2 0 3 2 0 =
       [(128, 0), (128, 64), (192, 0), (192, 64), (256, 0), (256, 64)]
   \<and> visited_blocks
       \<lparr>num_threads = 4, iim_block = 64, iin_block = 64, iik_block = 64,
        plain_M = 1024, plain_K = 256, plain_N = 1024, is_int8 = False, sizeofdtypeA = 4,
        sizeofdtypeC = 4, L2_size = 1048576\<rparr>
       0 0 2 0 3 2 1 =
       [(192, 64), (192, 0), (256, 64), (256, 0), (128, 64), (128, 0)]
   \<and> set (visited_blocks
       \<lparr>num_threads = 4, iim_block = 64, iin_block = 64, iik_block = 64,
        plain_M = 1024, plain_K = 256, plain_N = 1024, is_int8 = False, sizeofdtypeA = 4,
        sizeofdtypeC = 4, L2_size = 1048576\<rparr>
       0 0 2 0 3 2 1) = set (visited_blocks
       \<lparr>num_threads = 4, iim_block = 64, iin_block = 64, iik_block = 64,
        plain_M = 1024, plain_K = 256, plain_N = 1024, is_int8 = False, sizeofdtypeA = 4,
        sizeofdtypeC = 4, L2_size = 1048576\<rparr>
       0 0 2 0 3 2 0)"
proof -
  let ?p = "\<lparr>num_threads = 4, iim_block = 64, iin_block = 64, iik_block = 64,
        plain_M = 1024, plain_K = 256, plain_N = 1024, is_int8 = False, sizeofdtypeA = 4,
        sizeofdtypeC = 4, L2_size = 1048576\<rparr>"
  have h: "(0::int) \<le> 1" "(0::int) \<le> 0" "(0::int) < 3" by simp_all
  note a = rotation_visits_same_blocks[OF h(1) h(2) h(3), of ?p 0 0 2 0 3 2]
  have u: "[0..2] = [0, 1, 2::int]" "[0..1] = [0, 1::int]" by (simp_all add: upto.simps)
  have "visited_blocks ?p 0 0 2 0 3 2 0 =
       [(128, 0), (128, 64), (192, 0), (192, 64), (256, 0), (256, 64)]"
    by (simp add: visited_blocks_def m_start_idx_def n_start_idx_def u signed_modulo_int_def)
  moreover have "visited_blocks ?p 0 0 2 0 3 2 1 =
       [(192, 64), (192, 0), (256, 64), (256, 0), (128, 64), (128, 0)]"
    by (simp add: visited_blocks_def m_start_idx_def n_start_idx_def u signed_modulo_int_def)
  ultimately show ?thesis using a by simp
qed


section \<open>Choosing the thread decomposition\<close>

text \<open>
  The recursive equations of the two loops are unfolded by hand where needed. On inputs
  satisfying \<open>valid_op\<close> every checked division of the first three stages succeeds.
\<close>

declare float_ulp.simps [simp del]
declare search_split_n.simps [simp del]

lemma bind_res_simps [simp]:
  "bind_res (Inr x) f = f x" "bind_res (Inl e) f = Inl e"
  by (simp_all add: bind_res_def)

lemma bind_res_eq_Inr: "bind_res r f = Inr y \<longleftrightarrow> (\<exists>x. r = Inr x \<and> f x = Inr y)"
  by (cases r) simp_all

lemma bind_res_eq_Inl: "bind_res r f = Inl e \<longleftrightarrow> r = Inl e \<or> (\<exists>x. r = Inr x \<and> f x = Inl e)"
  by (cases r) simp_all

lemma c_div_pos: "0 \<le> a \<Longrightarrow> 0 < b \<Longrightarrow> c_div a b = Inr (a div b)"
  by (simp add: c_div_def sdiv_nonneg)

lemma c_div_eq_Inr: "c_div a b = Inr q \<longleftrightarrow> b \<noteq> 0 \<and> q = a sdiv b"
  by (auto simp: c_div_def)

lemma c_div_eq_Inl: "c_div a b = Inl e \<longleftrightarrow> b = 0 \<and> e = DivisionByZero"
  by (auto simp: c_div_def)

lemma udc_pos: "0 \<le> x \<Longrightarrow> 0 < y \<Longrightarrow> utils_divide_and_ceil x y = Inr ((x + y - 1) div y)"
  by (simp add: utils_divide_and_ceil_def c_div_pos)

lemma ceil_div_ge1:
  assumes "1 \<le> x" "0 < y" shows "1 \<le> (x + y - 1) div (y::int)"
proof -
  have "0 < (x + y - 1) div y" using assms pos_imp_zdiv_pos_iff[of y "x + y - 1"] by simp
  then show ?thesis by simp
qed

lemma ceil_div_nonneg: "0 \<le> x \<Longrightarrow> 0 < y \<Longrightarrow> 0 \<le> (x + y - 1) div (y::int)"
  by (simp add: pos_imp_zdiv_nonneg_iff)

lemma padded_props:
  assumes "1 \<le> x" "1 \<le> b"
  shows "b \<le> padded x b" and "1 \<le> padded x b div b" and "padded x b div b = (x + b - 1) div b"
    and "1 \<le> padded x b"
proof -
  have c: "1 \<le> (x + b - 1) div b" using assms by (simp add: ceil_div_ge1)
  show d: "padded x b div b = (x + b - 1) div b" using assms by (simp add: padded_def)
  show "1 \<le> padded x b div b" using c d by simp
  have "1 * b \<le> (x + b - 1) div b * b" using c assms by (intro mult_right_mono) simp_all
  then show "b \<le> padded x b" by (simp add: padded_def)
  then show "1 \<le> padded x b" using assms by simp
qed

lemma padded_dims_valid:
  assumes "valid_op p"
  shows "padded_dims p = Inr (padded (plain_M p) (iim_block p), padded (plain_N p) (iin_block p),
                              padded (plain_K p) (iik_block p))"
  using assms by (simp add: padded_dims_def valid_op_def udc_pos padded_def)


lemma new_cost_returns:
  assumes "1 \<le> i" "i \<le> num_threads p" "1 \<le> iim_block p" "1 \<le> iin_block p"
    "0 \<le> M" "0 \<le> N" "1 \<le> M div iim_block p" "1 \<le> N div iin_block p"
  shows "\<exists>c. new_cost p M N i = Inr c"
proof -
  have ms: "1 \<le> num_threads p div i"
    using assms pos_imp_zdiv_pos_iff[of i "num_threads p"] by simp
  have core: "min i (N div iin_block p) * min (num_threads p div i) (M div iim_block p) \<noteq> 0"
    using assms ms by (auto simp: min_def)
  have nz: "num_threads p \<noteq> 0" "i \<noteq> 0" using assms by simp_all
  show ?thesis
    using assms ms core
    by (simp add: new_cost_def c_div_pos udc_pos Let_def c_div_def[of _ "num_threads p"]
        c_div_def[of _ "min i (N div iin_block p) * min (num_threads p div i) (M div iim_block p)"] nz)
qed

lemma search_split_n_range:
  assumes "1 \<le> iim_block p" "1 \<le> iin_block p"
    "0 \<le> M" "0 \<le> N" "1 \<le> M div iim_block p" "1 \<le> N div iin_block p"
  shows "1 \<le> i \<Longrightarrow> \<exists>s. search_split_n p M N i split_n cost = Inr s \<and>
            (s = split_n \<or> (i \<le> s \<and> s \<le> num_threads p))"
  using assms
proof (induction p M N i split_n cost rule: search_split_n.induct)
  case (1 p M N i split_n cost)
  show ?case
  proof (cases "i \<le> num_threads p")
    case False
    then show ?thesis by (simp add: search_split_n.simps)
  next
    case True
    then obtain c where c: "new_cost p M N i = Inr c"
      using new_cost_returns[of i p M N] "1.prems" by auto
    show ?thesis
    proof (cases "c < cost")
      case lt: True
      have "\<exists>s. search_split_n p M N (i + 1) i c = Inr s \<and>
            (s = i \<or> (i + 1 \<le> s \<and> s \<le> num_threads p))"
        using "1.IH"(1)[OF True c lt] "1.prems" by simp
      then show ?thesis using True c lt
        by (subst search_split_n.simps) auto
    next
      case ge: False
      have "\<exists>s. search_split_n p M N (i + 1) split_n cost = Inr s \<and>
            (s = split_n \<or> (i + 1 \<le> s \<and> s \<le> num_threads p))"
        using "1.IH"(2)[OF True c ge] "1.prems" by simp
      then show ?thesis using True c ge
        by (subst search_split_n.simps) auto
    qed
  qed
qed

lemma search_split_n_valid:
  assumes "valid_op p" "padded_dims p = Inr (M, N, K)"
  shows "\<exists>s. search_split_n p M N 1 1 FLT_MAX = Inr s \<and> 1 \<le> s \<and> s \<le> num_threads p"
proof -
  have M: "M = padded (plain_M p) (iim_block p)" and N: "N = padded (plain_N p) (iin_block p)"
    using assms by (simp_all add: padded_dims_valid)
  have v: "1 \<le> iim_block p" "1 \<le> iin_block p" "1 \<le> plain_M p" "1 \<le> plain_N p" "1 \<le> num_threads p"
    using assms(1) by (simp_all add: valid_op_def)
  have "0 \<le> M" "0 \<le> N" "1 \<le> M div iim_block p" "1 \<le> N div iin_block p"
    using padded_props[of "plain_M p" "iim_block p"] padded_props[of "plain_N p" "iin_block p"] v
    by (simp_all add: M N)
  then obtain s where "search_split_n p M N 1 1 FLT_MAX = Inr s"
      "s = 1 \<or> (1 \<le> s \<and> s \<le> num_threads p)"
    using search_split_n_range[of p M N 1 1 FLT_MAX] v by auto
  then show ?thesis using v by auto
qed


lemma set_get_splits: "set (get_splits X) = {i. 1 \<le> i \<and> i \<le> X \<and> X smod i = 0}"
  by (auto simp: get_splits_def)

lemma distinct_get_splits: "distinct (get_splits X)"
  by (simp add: get_splits_def)

lemma get_splits_nth_range:
  assumes "k < length (get_splits X)"
  shows "1 \<le> get_splits X ! k" and "get_splits X ! k \<le> X"
  using nth_mem[OF assms] by (simp_all add: set_get_splits)

lemma get_splits_1: "get_splits 1 = [1]"
  by (simp add: get_splits_def upto.simps signed_modulo_int_def)

lemma length_get_splits_ge2:
  assumes "2 \<le> X"
  shows "2 \<le> length (get_splits X)"
proof -
  have "X smod 1 = 0" "X smod X = 0" using assms by (simp_all add: signed_modulo_int_def)
  then have "{1, X} \<subseteq> set (get_splits X)" using assms by (simp add: set_get_splits)
  then have "card {1, X} \<le> card (set (get_splits X))" by (intro card_mono) simp_all
  moreover have "card {1, X} = 2" using assms by simp
  ultimately show ?thesis by (simp add: distinct_card[OF distinct_get_splits])
qed

lemma vector_at_get_splits:
  "1 \<le> X \<Longrightarrow> vector_at (get_splits X) 1 = Inl OutOfRange \<longleftrightarrow> X = 1"
proof -
  assume x: "1 \<le> X"
  show ?thesis
  proof (cases "X = 1")
    case True
    then show ?thesis by (simp add: vector_at_def get_splits_1)
  next
    case False
    then have "2 \<le> length (get_splits X)" using x by (intro length_get_splits_ge2) simp
    then show ?thesis using False by (simp add: vector_at_def)
  qed
qed

lemma div_by_pos_range:
  assumes "1 \<le> d" "d \<le> X"
  shows "1 \<le> X div d" and "X div d \<le> (X::int)"
proof -
  have "0 < X div d" using assms pos_imp_zdiv_pos_iff[of d X] by simp
  then show "1 \<le> X div d" by simp
  have "X div d \<le> X div 1" using assms by (intro zdiv_mono2) simp_all
  then show "X div d \<le> X" by simp
qed

lemma apply_overrides_range:
  assumes nt: "1 \<le> s" "s \<le> num_threads p" and M: "1 \<le> M" and N: "1 \<le> N"
    and r: "apply_overrides p M N K s = Inr (ms, ns)"
  shows "1 \<le> ms \<and> 1 \<le> ns \<and> ms * ns \<le> num_threads p"
proof -
  let ?nt = "num_threads p"
  let ?ms0 = "?nt div s"
  have ms0: "1 \<le> ?ms0" "?ms0 \<le> ?nt" using div_by_pos_range[of s ?nt] nt by simp_all
  have cd: "c_div ?nt s = Inr ?ms0" using nt by (simp add: c_div_pos)
  have "?ms0 * s + ?nt mod s = ?nt" by (rule div_mult_mod_eq)
  moreover have "0 \<le> ?nt mod s" using nt by simp
  ultimately have prod0: "?ms0 * s \<le> ?nt" by linarith
  have shrink: "1 \<le> X div d \<and> X div d * Y \<le> ?nt"
    if "1 \<le> d" "d \<le> X" "X * Y \<le> ?nt" "0 \<le> Y" for X Y d :: int
  proof -
    have "X div d * Y \<le> X * Y" using div_by_pos_range[of d X] that by (intro mult_right_mono) simp_all
    then show ?thesis using div_by_pos_range[of d X] that by simp
  qed
  consider (a) "is_int8 p \<and> N \<le> 512 \<and> K \<le> 512"
    | (b) "\<not> (is_int8 p \<and> N \<le> 512 \<and> K \<le> 512)" "N \<le> 192 \<and> K \<le> 192"
    | (c) "\<not> (is_int8 p \<and> N \<le> 512 \<and> K \<le> 512)" "\<not> (N \<le> 192 \<and> K \<le> 192)" "K \<ge> 8192" "M < N"
    | (d) "\<not> (is_int8 p \<and> N \<le> 512 \<and> K \<le> 512)" "\<not> (N \<le> 192 \<and> K \<le> 192)" "K \<ge> 8192" "\<not> M < N"
    | (e) "\<not> (is_int8 p \<and> N \<le> 512 \<and> K \<le> 512)" "\<not> (N \<le> 192 \<and> K \<le> 192)" "\<not> K \<ge> 8192"
    by blast
  then show ?thesis
  proof cases
    case a
    then show ?thesis using r cd nt by (auto simp: apply_overrides_def)
  next
    case b
    then show ?thesis using r cd nt by (auto simp: apply_overrides_def)
  next
    case c
    show ?thesis
    proof (cases "length (get_splits ?ms0) > 2 \<and> N div M < 3")
      case True
      then have l: "1 < length (get_splits ?ms0)" by simp
      have cnm: "c_div N M = Inr (N div M)" using M N by (simp add: c_div_pos)
      let ?d = "get_splits ?ms0 ! 1"
      have d: "1 \<le> ?d" "?d \<le> ?ms0" using get_splits_nth_range[OF l] by simp_all
      have "c_div ?ms0 ?d = Inr (?ms0 div ?d)" using d ms0 by (simp add: c_div_pos)
      then have "ms = ?ms0 div ?d" "ns = s"
        using r cd c True cnm by (auto simp: apply_overrides_def Let_def)
      then show ?thesis using shrink[of ?d ?ms0 s] d prod0 nt by simp
    next
      case False
      have "bind_res (if length (get_splits ?ms0) > 2 then c_div N M else Inr 0)
              (\<lambda>ratio. if length (get_splits ?ms0) > 2 \<and> ratio < 3
                 then bind_res (c_div ?ms0 (get_splits ?ms0 ! 1)) (\<lambda>ms. Inr (ms, s))
                 else bind_res (vector_at (get_splits ?nt) 1) (\<lambda>K_split_num.
                      bind_res (c_div ?nt K_split_num) (\<lambda>ns. Inr (1, ns)))) = Inr (ms, ns)"
        using r cd c by (simp add: apply_overrides_def Let_def)
      moreover have "c_div N M = Inr (N div M)" using M N by (simp add: c_div_pos)
      ultimately have e: "bind_res (vector_at (get_splits ?nt) 1) (\<lambda>K_split_num.
                      bind_res (c_div ?nt K_split_num) (\<lambda>ns. Inr (1, ns))) = Inr (ms, ns)"
        using False by (auto split: if_splits)
      then have l: "1 < length (get_splits ?nt)"
        by (auto simp: vector_at_def bind_res_eq_Inr split: if_splits)
      let ?d = "get_splits ?nt ! 1"
      have d: "1 \<le> ?d" "?d \<le> ?nt" using get_splits_nth_range[OF l] by simp_all
      have "c_div ?nt ?d = Inr (?nt div ?d)" using d ms0 by (simp add: c_div_pos)
      then have "ms = 1" "ns = ?nt div ?d" using e l by (auto simp: vector_at_def)
      then show ?thesis using div_by_pos_range[of ?d ?nt] d by simp
    qed
  next
    case d
    show ?thesis
    proof (cases "length (get_splits s) > 2")
      case True
      then have l: "1 < length (get_splits s)" by simp
      let ?d = "get_splits s ! 1"
      have dd: "1 \<le> ?d" "?d \<le> s" using get_splits_nth_range[OF l] by simp_all
      have "c_div s ?d = Inr (s div ?d)" using dd nt by (simp add: c_div_pos)
      then have "ms = ?ms0" "ns = s div ?d"
        using r cd d True by (auto simp: apply_overrides_def Let_def)
      moreover have "1 \<le> s div ?d \<and> s div ?d * ?ms0 \<le> ?nt"
        using shrink[of ?d s ?ms0] dd prod0 ms0 by (simp add: mult.commute)
      ultimately show ?thesis using ms0 by (simp add: mult.commute)
    next
      case False
      then have "ms = ?ms0" "ns = s"
        using r cd d by (auto simp: apply_overrides_def Let_def)
      then show ?thesis using ms0 prod0 nt by simp
    qed
  next
    case e
    then have "ms = ?ms0" "ns = s"
      using r cd by (auto simp: apply_overrides_def Let_def)
    then show ?thesis using ms0 prod0 nt by simp
  qed
qed


lemma single_K_threshold_pos:
  assumes "sizeofdtypeA p = 1 \<or> sizeofdtypeA p = 2 \<or> sizeofdtypeA p = 4"
    and "single_K_threshold p sM sN = Inr t"
  shows "512 \<le> t"
  using assms by (auto simp: single_K_threshold_def c_div_def signed_divide_int_def split: if_splits)

lemma size_sub_blocks_range:
  assumes v: "sizeofdtypeA p = 1 \<or> sizeofdtypeA p = 2 \<or> sizeofdtypeA p = 4"
    and r: "size_sub_blocks fp p M N K ms ns = Inr (a, b, c)"
  shows "1 \<le> a \<and> 1 \<le> b \<and> 1 \<le> c \<and>
         (\<exists>sM sN T. single_extent M (iim_block p) ms = Inr sM \<and>
                    single_extent N (iin_block p) ns = Inr sN \<and>
                    T = (if wrap32 (wrap32 (sM * sN) * sizeofdtypeA p) < L2_size p
                         then 2048 else 4096) div sizeofdtypeA p \<and>
                    c = (if K < T then 1 else (K + T - 1) div T))"
proof -
  obtain sM sN t where sM: "single_extent M (iim_block p) ms = Inr sM"
    and sN: "single_extent N (iin_block p) ns = Inr sN"
    and t: "single_K_threshold p sM sN = Inr t"
    and rest: "(if K \<ge> t then
         bind_res (utils_divide_and_ceil K t) (\<lambda>ksb.
         bind_res (utils_divide_and_ceil K (iik_block p)) (\<lambda>kb.
         bind_res (utils_divide_and_ceil kb ksb) (\<lambda>kq.
           let L2_K = kq * iik_block p;
               L2_MN = fp (sizeofdtypeA p) L2_K (sizeofdtypeC p) (L2_size p)
           in
         bind_res (c_div sM L2_MN) (\<lambda>mq.
         bind_res (c_div sN L2_MN) (\<lambda>nq.
           Inr (max 1 mq, max 1 nq, ksb))))))
       else
         bind_res (c_div (L2_size p) (2 * sizeofdtypeA p * K)) (\<lambda>L2_MN.
         bind_res (c_div sM L2_MN) (\<lambda>mq.
         bind_res (c_div sN L2_MN) (\<lambda>nq.
           Inr (max 1 mq, max 1 nq, 1))))) = Inr (a, b, c)"
    using r by (auto simp: size_sub_blocks_def bind_res_eq_Inr Let_def)
  have tpos: "512 \<le> t" using single_K_threshold_pos[OF v t] .
  have sA: "0 < sizeofdtypeA p" using v by auto
  have teq: "t = (if wrap32 (wrap32 (sM * sN) * sizeofdtypeA p) < L2_size p
                  then 2048 else 4096) div sizeofdtypeA p"
    using t sA by (simp add: single_K_threshold_def c_div_eq_Inr sdiv_nonneg)
  have "1 \<le> a \<and> 1 \<le> b \<and> 1 \<le> c \<and> c = (if K < t then 1 else (K + t - 1) div t)"
  proof (cases "K \<ge> t")
    case True
    then have "c = (K + t - 1) sdiv t" "1 \<le> a" "1 \<le> b"
      using rest by (auto simp: bind_res_eq_Inr utils_divide_and_ceil_def c_div_eq_Inr Let_def)
    moreover have "(K + t - 1) sdiv t = (K + t - 1) div t" using True tpos by (simp add: sdiv_nonneg)
    moreover have "1 \<le> (K + t - 1) div t" using True tpos by (intro ceil_div_ge1) simp_all
    ultimately show ?thesis using True by simp
  next
    case False
    then have "c = 1" "1 \<le> a" "1 \<le> b"
      using rest by (auto simp: bind_res_eq_Inr)
    then show ?thesis using False by simp
  qed
  then show ?thesis using sM sN teq by blast
qed

lemma get_default_config_Inr_iff:
  "get_default_config fp p = Inr cfg \<longleftrightarrow>
     (\<exists>M N K s ms ns a b c. padded_dims p = Inr (M, N, K) \<and>
        search_split_n p M N 1 1 FLT_MAX = Inr s \<and>
        apply_overrides p M N K s = Inr (ms, ns) \<and>
        size_sub_blocks fp p M N K ms ns = Inr (a, b, c) \<and>
        cfg = \<lparr>M_split_num = ms, N_split_num = ns, M_sub_block = a, N_sub_block = b,
            K_sub_block = c, im_loop_order = 0\<rparr>)"
  by (auto simp: get_default_config_def bind_res_eq_Inr)

lemma get_default_config_splits_range:
  assumes "valid_op p" "get_default_config fp p = Inr cfg"
  shows "1 \<le> M_split_num cfg \<and> 1 \<le> N_split_num cfg \<and>
         M_split_num cfg * N_split_num cfg \<le> num_threads p"
proof -
  obtain M N K s ms ns a b c where d: "padded_dims p = Inr (M, N, K)"
    and s: "search_split_n p M N 1 1 FLT_MAX = Inr s"
    and o: "apply_overrides p M N K s = Inr (ms, ns)"
    and cfg: "cfg = \<lparr>M_split_num = ms, N_split_num = ns, M_sub_block = a, N_sub_block = b,
            K_sub_block = c, im_loop_order = 0\<rparr>"
    using assms(2) unfolding get_default_config_Inr_iff by blast
  have sr: "1 \<le> s" "s \<le> num_threads p"
    using search_split_n_valid[OF assms(1) d] s by simp_all
  have "1 \<le> M" "1 \<le> N"
    using d assms(1) padded_props(4)[of "plain_M p" "iim_block p"] padded_props(4)[of "plain_N p" "iin_block p"]
    by (simp_all add: padded_dims_valid valid_op_def)
  then show ?thesis using apply_overrides_range[OF sr _ _ o] cfg by simp
qed


lemma search_split_n_first_min:
  assumes f: "\<And>j. 1 \<le> j \<Longrightarrow> j \<le> num_threads p \<Longrightarrow> new_cost p M N j = Inr (f j)"
  shows "1 \<le> i \<Longrightarrow> (\<forall>j. 1 \<le> j \<and> j < i \<longrightarrow> cost \<le> f j) \<Longrightarrow>
         search_split_n p M N i split_n cost = Inr s \<Longrightarrow>
         (s = split_n \<and> (\<forall>j. 1 \<le> j \<and> j \<le> num_threads p \<longrightarrow> cost \<le> f j)) \<or>
         (i \<le> s \<and> s \<le> num_threads p \<and> f s < cost \<and>
          (\<forall>j. 1 \<le> j \<and> j \<le> num_threads p \<longrightarrow> f s \<le> f j) \<and>
          (\<forall>j. 1 \<le> j \<and> j < s \<longrightarrow> f s < f j))"
  using f
proof (induction p M N i split_n cost rule: search_split_n.induct)
  case (1 p M N i split_n cost)
  note f' = "1.prems"(4)
  show ?case
  proof (cases "i \<le> num_threads p")
    case False
    then have "s = split_n" using "1.prems"(3) by (simp add: search_split_n.simps)
    moreover have "\<forall>j. 1 \<le> j \<and> j \<le> num_threads p \<longrightarrow> cost \<le> f j"
      using False "1.prems"(2) by auto
    ultimately show ?thesis by simp
  next
    case True
    have c: "new_cost p M N i = Inr (f i)" using f'[of i] True "1.prems"(1) by simp
    show ?thesis
    proof (cases "f i < cost")
      case lt: True
      have r: "search_split_n p M N (i + 1) i (f i) = Inr s"
        using "1.prems"(3) True c lt by (subst (asm) search_split_n.simps) simp
      have inv: "\<forall>j. 1 \<le> j \<and> j < i + 1 \<longrightarrow> f i \<le> f j"
      proof (intro allI impI)
        fix j assume j: "1 \<le> j \<and> j < i + 1"
        then consider "j < i" | "j = i" by linarith
        then show "f i \<le> f j"
        proof cases
          case 1 then show ?thesis using "1.prems"(2) j lt by force
        next
          case 2 then show ?thesis by simp
        qed
      qed
      have "(s = i \<and> (\<forall>j. 1 \<le> j \<and> j \<le> num_threads p \<longrightarrow> f i \<le> f j)) \<or>
         (i + 1 \<le> s \<and> s \<le> num_threads p \<and> f s < f i \<and>
          (\<forall>j. 1 \<le> j \<and> j \<le> num_threads p \<longrightarrow> f s \<le> f j) \<and>
          (\<forall>j. 1 \<le> j \<and> j < s \<longrightarrow> f s < f j))"
        using "1.IH"(1)[OF True c lt _ inv r f'] "1.prems"(1) by simp
      then show ?thesis
      proof
        assume a: "s = i \<and> (\<forall>j. 1 \<le> j \<and> j \<le> num_threads p \<longrightarrow> f i \<le> f j)"
        have "\<forall>j. 1 \<le> j \<and> j < s \<longrightarrow> f s < f j" using a "1.prems"(2) lt by force
        then show ?thesis using a True lt by simp
      next
        assume a: "i + 1 \<le> s \<and> s \<le> num_threads p \<and> f s < f i \<and>
          (\<forall>j. 1 \<le> j \<and> j \<le> num_threads p \<longrightarrow> f s \<le> f j) \<and>
          (\<forall>j. 1 \<le> j \<and> j < s \<longrightarrow> f s < f j)"
        then show ?thesis using lt by auto
      qed
    next
      case ge: False
      have r: "search_split_n p M N (i + 1) split_n cost = Inr s"
        using "1.prems"(3) True c ge by (subst (asm) search_split_n.simps) simp
      have inv: "\<forall>j. 1 \<le> j \<and> j < i + 1 \<longrightarrow> cost \<le> f j"
      proof (intro allI impI)
        fix j assume j: "1 \<le> j \<and> j < i + 1"
        then consider "j < i" | "j = i" by linarith
        then show "cost \<le> f j"
        proof cases
          case 1 then show ?thesis using "1.prems"(2) j by simp
        next
          case 2 then show ?thesis using ge by simp
        qed
      qed
      have "(s = split_n \<and> (\<forall>j. 1 \<le> j \<and> j \<le> num_threads p \<longrightarrow> cost \<le> f j)) \<or>
         (i + 1 \<le> s \<and> s \<le> num_threads p \<and> f s < cost \<and>
          (\<forall>j. 1 \<le> j \<and> j \<le> num_threads p \<longrightarrow> f s \<le> f j) \<and>
          (\<forall>j. 1 \<le> j \<and> j < s \<longrightarrow> f s < f j))"
        using "1.IH"(2)[OF True c ge _ inv r f'] "1.prems"(1) by simp
      then show ?thesis by auto
    qed
  qed
qed


lemma padded_dims_facts:
  assumes "valid_op p" "padded_dims p = Inr (M, N, K)"
  shows "1 \<le> M" "1 \<le> N" "1 \<le> K" "1 \<le> M div iim_block p" "1 \<le> N div iin_block p"
  using assms padded_props[of "plain_M p" "iim_block p"] padded_props[of "plain_N p" "iin_block p"]
    padded_props[of "plain_K p" "iik_block p"]
  by (simp_all add: padded_dims_valid valid_op_def)

lemma new_cost_valid:
  assumes "valid_op p" "padded_dims p = Inr (M, N, K)" "1 \<le> i" "i \<le> num_threads p"
  shows "\<exists>c. new_cost p M N i = Inr c"
  using new_cost_returns[of i p M N] padded_dims_facts[OF assms(1,2)] assms
  by (simp add: valid_op_def)

lemma size_sub_blocks_error:
  "size_sub_blocks fp p M N K ms ns = Inl e \<Longrightarrow> e = DivisionByZero"
  by (auto simp: size_sub_blocks_def single_extent_def single_K_threshold_def
      utils_divide_and_ceil_def bind_res_eq_Inl c_div_eq_Inl Let_def split: if_splits)

lemma apply_overrides_error:
  assumes "apply_overrides p M N K s = Inl e"
  shows "e = DivisionByZero \<or> (e = OutOfRange \<and> vector_at (get_splits (num_threads p)) 1 = Inl OutOfRange)"
  using assms
  by (auto simp: apply_overrides_def bind_res_eq_Inl c_div_eq_Inl Let_def vector_at_def
      split: if_splits)

lemma no_override_result:
  assumes "s \<noteq> 0" "\<not> (is_int8 p \<and> N \<le> 512 \<and> K \<le> 512)" "\<not> (N \<le> 192 \<and> K \<le> 192)" "K < 8192"
  shows "apply_overrides p M N K s = Inr (num_threads p sdiv s, s)"
  using assms by (auto simp: apply_overrides_def c_div_def Let_def)

lemma div_mult_eq_iff_dvd:
  assumes "1 \<le> s" shows "(n div s) * s = n \<longleftrightarrow> s dvd (n::int)"
proof
  assume "n div s * s = n"
  then have "n = s * (n div s)" by (simp add: mult.commute)
  then show "s dvd n" by (rule dvdI)
next
  assume "s dvd n" then show "n div s * s = n" by simp
qed

text \<open>
  Claim C4, as amended. The search runs over every \<open>i\<close> from 1 to \<open>num_threads\<close>,
  divisor or not: it returns a candidate \<open>s\<close> in that range whose cost, the 32-bit
  \<^verbatim>\<open>int\<close> expression of line 120 converted to \<^verbatim>\<open>float\<close>, is the least over all of
  them (the first such \<open>i\<close>; costs are compared below \<open>FLT_MAX\<close>).
  Before the overrides \<open>M_split_num = num_threads / s\<close> and \<open>N_split_num = s\<close>, so
  the product is at most \<open>num_threads\<close> and equals it exactly when \<open>s\<close> divides
  \<open>num_threads\<close>; when no override fires this pair is the one returned.
\<close>

theorem search_split_candidate_range:
  assumes "valid_op p" and "padded_dims p = Inr (M, N, K)" and "int32_op p"
  shows "\<exists>s cs. search_split_n p M N 1 1 FLT_MAX = Inr s \<and> 1 \<le> s \<and> s \<le> num_threads p
     \<and> new_cost p M N s = Inr cs
     \<and> (\<forall>i\<in>{1..num_threads p}. \<exists>c. new_cost p M N i = Inr c \<and> min cs FLT_MAX \<le> c \<and>
            (i < s \<longrightarrow> min cs FLT_MAX < c))
     \<and> (num_threads p sdiv s) * s \<le> num_threads p
     \<and> ((num_threads p sdiv s) * s = num_threads p \<longleftrightarrow> s dvd num_threads p)
     \<and> (\<not> (is_int8 p \<and> N \<le> 512 \<and> K \<le> 512) \<and> \<not> (N \<le> 192 \<and> K \<le> 192) \<and> K < 8192 \<longrightarrow>
          apply_overrides p M N K s = Inr (num_threads p sdiv s, s) \<and>
          (\<forall>cfg. get_default_config fp p = Inr cfg \<longrightarrow>
             M_split_num cfg = num_threads p sdiv s \<and> N_split_num cfg = s))"
proof -
  let ?nt = "num_threads p"
  define f where "f j = (case new_cost p M N j of Inr c \<Rightarrow> c | Inl e \<Rightarrow> 0)" for j
  have f: "new_cost p M N j = Inr (f j)" if j: "1 \<le> j" "j \<le> ?nt" for j
  proof -
    obtain c where "new_cost p M N j = Inr c" using new_cost_valid[OF assms(1,2) j] by blast
    then show ?thesis by (simp add: f_def)
  qed
  obtain s where s: "search_split_n p M N 1 1 FLT_MAX = Inr s" "1 \<le> s" "s \<le> ?nt"
    using search_split_n_valid[OF assms(1,2)] by blast
  have m: "(s = 1 \<and> (\<forall>j. 1 \<le> j \<and> j \<le> ?nt \<longrightarrow> FLT_MAX \<le> f j)) \<or>
         (1 \<le> s \<and> s \<le> ?nt \<and> f s < FLT_MAX \<and>
          (\<forall>j. 1 \<le> j \<and> j \<le> ?nt \<longrightarrow> f s \<le> f j) \<and>
          (\<forall>j. 1 \<le> j \<and> j < s \<longrightarrow> f s < f j))"
    using search_split_n_first_min[of p M N f 1 FLT_MAX 1 s] f s(1) by simp
  have min: "\<forall>i\<in>{1..?nt}. \<exists>c. new_cost p M N i = Inr c \<and> min (f s) FLT_MAX \<le> c \<and>
            (i < s \<longrightarrow> min (f s) FLT_MAX < c)"
  proof
    fix i assume i: "i \<in> {1..?nt}"
    then have "new_cost p M N i = Inr (f i)" using f by simp
    moreover have "min (f s) FLT_MAX \<le> f i" using m i by (auto simp: min_def)
    moreover have "i < s \<longrightarrow> min (f s) FLT_MAX < f i" using m i by (auto simp: min_def)
    ultimately show "\<exists>c. new_cost p M N i = Inr c \<and> min (f s) FLT_MAX \<le> c \<and>
            (i < s \<longrightarrow> min (f s) FLT_MAX < c)" by blast
  qed
  have sd: "?nt sdiv s = ?nt div s" using s assms(1) by (simp add: sdiv_nonneg)
  have "?nt div s * s + ?nt mod s = ?nt" by (rule div_mult_mod_eq)
  moreover have "0 \<le> ?nt mod s" using s by simp
  ultimately have "?nt div s * s \<le> ?nt" by linarith
  then have le: "(?nt sdiv s) * s \<le> ?nt" by (simp only: sd)
  have dv: "(?nt sdiv s) * s = ?nt \<longleftrightarrow> s dvd ?nt"
    using div_mult_eq_iff_dvd[OF s(2), of ?nt] sd by simp
  have no: "apply_overrides p M N K s = Inr (?nt sdiv s, s) \<and>
          (\<forall>cfg. get_default_config fp p = Inr cfg \<longrightarrow>
             M_split_num cfg = ?nt sdiv s \<and> N_split_num cfg = s)"
    if h: "\<not> (is_int8 p \<and> N \<le> 512 \<and> K \<le> 512) \<and> \<not> (N \<le> 192 \<and> K \<le> 192) \<and> K < 8192"
  proof -
    have a: "apply_overrides p M N K s = Inr (?nt sdiv s, s)"
      using no_override_result[of s p N K M] h s by simp
    then show ?thesis using assms(2) s(1) by (auto simp: get_default_config_Inr_iff)
  qed
  show ?thesis
    using s f[OF s(2,3)] min le dv no by blast
qed



text \<open>
  Claim C4, as stated, fails: four threads, f32, \<open>16 x 1024 x 48\<close>. The constructor
  chooses blocks of 16, the costs of \<open>i = 1, ..., 4\<close> are 11836, 9504, 8766 and 11572
  (no product overflows), the search selects 3, which does not divide 4, no override
  fires, and the configuration returned has \<open>M_split_num * N_split_num = 3\<close>. The value of
  \<^verbatim>\<open>L2_MN\<close> is 212 here: \<open>(sqrt (4096^2 + 16 * 1048576) - 4096) / 8 = 212.07...\<close>
\<close>

theorem search_split_non_divisor_counterexample:
  "constructor_blocks f32 4 16 1024 48 = Inr (16, 16, 16)
   \<and> padded_dims
     \<lparr>num_threads = 4, iim_block = 16, iin_block = 16, iik_block = 16,
      plain_M = 16, plain_K = 1024, plain_N = 48, is_int8 = False, sizeofdtypeA = 4,
      sizeofdtypeC = 4, L2_size = 1048576\<rparr> = Inr (16, 48, 1024)
   \<and> map (new_cost
     \<lparr>num_threads = 4, iim_block = 16, iin_block = 16, iik_block = 16,
      plain_M = 16, plain_K = 1024, plain_N = 48, is_int8 = False, sizeofdtypeA = 4,
      sizeofdtypeC = 4, L2_size = 1048576\<rparr> 16 48) [1, 2, 3, 4] = [Inr 11836, Inr 9504, Inr 8766, Inr 11572]
   \<and> search_split_n
     \<lparr>num_threads = 4, iim_block = 16, iin_block = 16, iik_block = 16,
      plain_M = 16, plain_K = 1024, plain_N = 48, is_int8 = False, sizeofdtypeA = 4,
      sizeofdtypeC = 4, L2_size = 1048576\<rparr> 16 48 1 1 FLT_MAX = Inr 3
   \<and> \<not> (3::int) dvd 4
   \<and> get_default_config (\<lambda>a k c l. 212)
     \<lparr>num_threads = 4, iim_block = 16, iin_block = 16, iik_block = 16,
      plain_M = 16, plain_K = 1024, plain_N = 48, is_int8 = False, sizeofdtypeA = 4,
      sizeofdtypeC = 4, L2_size = 1048576\<rparr> =
     Inr \<lparr>M_split_num = 1, N_split_num = 3, M_sub_block = 1, N_sub_block = 1,
          K_sub_block = 2, im_loop_order = 0\<rparr>
   \<and> (1::int) * 3 \<noteq> 4"
  by code_simp

text \<open>The four-thread example again: the pair returned is \<open>(4 / 3, 3)\<close>.\<close>

theorem search_split_candidate_range_witness:
  "valid_op \<lparr>num_threads = 4, iim_block = 16, iin_block = 16, iik_block = 16,
      plain_M = 16, plain_K = 1024, plain_N = 48, is_int8 = False, sizeofdtypeA = 4,
      sizeofdtypeC = 4, L2_size = 1048576\<rparr>
   \<and> int32_op \<lparr>num_threads = 4, iim_block = 16, iin_block = 16, iik_block = 16,
      plain_M = 16, plain_K = 1024, plain_N = 48, is_int8 = False, sizeofdtypeA = 4,
      sizeofdtypeC = 4, L2_size = 1048576\<rparr>
   \<and> padded_dims \<lparr>num_threads = 4, iim_block = 16, iin_block = 16, iik_block = 16,
      plain_M = 16, plain_K = 1024, plain_N = 48, is_int8 = False, sizeofdtypeA = 4,
      sizeofdtypeC = 4, L2_size = 1048576\<rparr> = Inr (16, 48, 1024)
   \<and> (\<exists>cfg. get_default_config (\<lambda>a k c l. 212)
        \<lparr>num_threads = 4, iim_block = 16, iin_block = 16, iik_block = 16,
      plain_M = 16, plain_K = 1024, plain_N = 48, is_int8 = False, sizeofdtypeA = 4,
      sizeofdtypeC = 4, L2_size = 1048576\<rparr> = Inr cfg \<and>
        M_split_num cfg = 4 sdiv 3 \<and> N_split_num cfg = 3)"
proof -
  let ?p = "\<lparr>num_threads = 4, iim_block = 16, iin_block = 16, iik_block = 16,
      plain_M = 16, plain_K = 1024, plain_N = 48, is_int8 = False, sizeofdtypeA = 4,
      sizeofdtypeC = 4, L2_size = 1048576\<rparr>"
  have v: "valid_op ?p" by (simp add: valid_op_def)
  have r: "int32_op ?p" by (simp add: int32_op_def)
  have d: "padded_dims ?p = Inr (16, 48, 1024)" by code_simp
  have s: "search_split_n ?p 16 48 1 1 FLT_MAX = Inr 3" by code_simp
  have g: "get_default_config (\<lambda>a k c l. 212) ?p =
     Inr \<lparr>M_split_num = 1, N_split_num = 3, M_sub_block = 1, N_sub_block = 1,
          K_sub_block = 2, im_loop_order = 0\<rparr>" by code_simp
  obtain s' cs where a: "search_split_n ?p 16 48 1 1 FLT_MAX = Inr s'"
    and b: "\<not> (is_int8 ?p \<and> (48::int) \<le> 512 \<and> (1024::int) \<le> 512) \<and>
            \<not> ((48::int) \<le> 192 \<and> (1024::int) \<le> 192) \<and> (1024::int) < 8192 \<longrightarrow>
          apply_overrides ?p 16 48 1024 s' = Inr (num_threads ?p sdiv s', s') \<and>
          (\<forall>cfg. get_default_config (\<lambda>a k c l. 212) ?p = Inr cfg \<longrightarrow>
             M_split_num cfg = num_threads ?p sdiv s' \<and> N_split_num cfg = s')"
    using search_split_candidate_range[OF v d r, of "\<lambda>a k c l. 212"] by blast
  have "s' = 3" using a s by simp
  then have "\<forall>cfg. get_default_config (\<lambda>a k c l. 212) ?p = Inr cfg \<longrightarrow>
             M_split_num cfg = 4 sdiv 3 \<and> N_split_num cfg = 3"
    using b by simp
  then show ?thesis using v r d g by blast
qed

text \<open>
  Where the product of line 120 leaves 32 bits the wrapped value decides: two threads, f32,
  \<open>4096 x 1024 x 16384\<close>. For \<open>i = 1\<close> the factors are 19456 and 131080, their product
  2550292480 wraps to -1744674816 and the cost is negative, so the search keeps 1 although
  the cost of \<open>i = 2\<close> is the smaller one without the overflow.
\<close>

lemma search_split_cost_overflow:
  "constructor_blocks f32 2 4096 1024 16384 = Inr (16, 16, 16)
   \<and> wrap32 (19456 * 131080) = - 1744674816
   \<and> map (new_cost
       \<lparr>num_threads = 2, iim_block = 16, iin_block = 16, iik_block = 16,
        plain_M = 4096, plain_K = 1024, plain_N = 16384, is_int8 = False, sizeofdtypeA = 4,
        sizeofdtypeC = 4, L2_size = 1048576\<rparr> 4096 16384) [1, 2]
       = [Inr (- 872337408), Inr 872521728]
   \<and> get_default_config (\<lambda>a k c l. 120)
       \<lparr>num_threads = 2, iim_block = 16, iin_block = 16, iik_block = 16,
        plain_M = 4096, plain_K = 1024, plain_N = 16384, is_int8 = False, sizeofdtypeA = 4,
        sizeofdtypeC = 4, L2_size = 1048576\<rparr> =
     Inr \<lparr>M_split_num = 2, N_split_num = 1, M_sub_block = 17, N_sub_block = 136,
          K_sub_block = 1, im_loop_order = 0\<rparr>"
  by code_simp

text \<open>
  Claim C3 says that every input yields a configuration with both splits at least 1
  and their product at most \<open>num_threads\<close>. Wherever a configuration is returned
  this holds (\<open>get_default_config_splits_range\<close> above). With one thread, \<open>K = 8192\<close>
  and \<open>M < N\<close> none is returned: \<^verbatim>\<open>get_splits(1)\<close> has one element and
  \<^verbatim>\<open>.at(1)\<close> throws, whatever the value of the floating-point parameter.
\<close>

theorem get_default_config_single_thread_large_K:
  "get_default_config fp_L2_MN
     \<lparr>num_threads = 1, iim_block = 16, iin_block = 16, iik_block = 16,
      plain_M = 16, plain_K = 8192, plain_N = 32, is_int8 = False, sizeofdtypeA = 4,
      sizeofdtypeC = 4, L2_size = 1048576\<rparr> = Inl OutOfRange"
  by (simp add: get_default_config_def padded_dims_def utils_divide_and_ceil_def c_div_def
      signed_divide_int_def search_split_n.simps new_cost_def Let_def int_to_float_def
      round_nearest_even_def float_ulp.simps FLT_MAX_def apply_overrides_def get_splits_1
      vector_at_def)

text \<open>Splitting a dimension over threads leaves each thread at least one block.\<close>

lemma single_extent_valid:
  assumes "1 \<le> X" "1 \<le> b" "1 \<le> sn"
  shows "\<exists>e. single_extent X b sn = Inr e \<and> 1 \<le> e"
proof -
  have c: "1 \<le> (X + b - 1) div b" using assms by (simp add: ceil_div_ge1)
  then have c2: "1 \<le> ((X + b - 1) div b + sn - 1) div sn" using assms by (simp add: ceil_div_ge1)
  have "1 * 1 \<le> ((X + b - 1) div b + sn - 1) div sn * b"
    using c2 assms by (intro mult_mono) simp_all
  then show ?thesis using assms c by (simp add: single_extent_def udc_pos)
qed

text \<open>
  Claim C6. For a \<^verbatim>\<open>u8\<close>/\<^verbatim>\<open>s8\<close> A with padded \<open>N \<le> 512\<close> and \<open>K \<le> 512\<close> the
  first override replaces whatever candidate the search picked by
  \<open>M_split_num = num_threads\<close>, \<open>N_split_num = 1\<close>; every configuration returned
  has these splits, and one is returned as soon as the cache holds \<open>2 * K\<close> bytes
  (one-byte elements), so that \<^verbatim>\<open>L2_MN\<close> is not zero.
\<close>

theorem int8_small_N_K_splits_only_M:
  assumes "valid_op p" and "is_int8 p" and "padded_dims p = Inr (M, N, K)"
    and "N \<le> 512" and "K \<le> 512"
  shows "(\<forall>s. s \<noteq> 0 \<longrightarrow> apply_overrides p M N K s = Inr (num_threads p, 1))
       \<and> (\<forall>cfg. get_default_config fp p = Inr cfg \<longrightarrow>
             M_split_num cfg = num_threads p \<and> N_split_num cfg = 1)
       \<and> (sizeofdtypeA p = 1 \<and> 2 * K \<le> L2_size p \<longrightarrow>
             (\<exists>cfg. get_default_config fp p = Inr cfg))"
proof (intro conjI)
  have o: "apply_overrides p M N K s = Inr (num_threads p, 1)" if "s \<noteq> 0" for s
    using that assms(2,4,5) by (simp add: apply_overrides_def c_div_def)
  then show "\<forall>s. s \<noteq> 0 \<longrightarrow> apply_overrides p M N K s = Inr (num_threads p, 1)" by simp
  obtain s where s: "search_split_n p M N 1 1 FLT_MAX = Inr s" "1 \<le> s"
    using search_split_n_valid[OF assms(1,3)] by blast
  have os: "apply_overrides p M N K s = Inr (num_threads p, 1)" using o[of s] s by simp
  show "\<forall>cfg. get_default_config fp p = Inr cfg \<longrightarrow>
             M_split_num cfg = num_threads p \<and> N_split_num cfg = 1"
    using assms(3) s(1) os by (auto simp: get_default_config_Inr_iff)
  show "sizeofdtypeA p = 1 \<and> 2 * K \<le> L2_size p \<longrightarrow> (\<exists>cfg. get_default_config fp p = Inr cfg)"
  proof
    assume h: "sizeofdtypeA p = 1 \<and> 2 * K \<le> L2_size p"
    note pf = padded_dims_facts[OF assms(1,3)]
    have v: "1 \<le> iim_block p" "1 \<le> iin_block p" "1 \<le> num_threads p"
      using assms(1) by (simp_all add: valid_op_def)
    obtain sM where sM: "single_extent M (iim_block p) (num_threads p) = Inr sM" "1 \<le> sM"
      using single_extent_valid[of M "iim_block p" "num_threads p"] pf v by blast
    obtain sN where sN: "single_extent N (iin_block p) 1 = Inr sN" "1 \<le> sN"
      using single_extent_valid[of N "iin_block p" 1] pf v by blast
    obtain t where t: "single_K_threshold p sM sN = Inr t" "2048 \<le> t"
      using h by (simp add: single_K_threshold_def c_div_def)
    have kt: "\<not> t \<le> K" using t assms(5) by simp
    have l2: "1 \<le> L2_size p div (2 * K)"
      using div_by_pos_range(1)[of "2 * K" "L2_size p"] pf h by simp
    have "\<exists>r. size_sub_blocks fp p M N K (num_threads p) 1 = Inr r"
      using sM sN t kt l2 h pf
      by (simp add: size_sub_blocks_def Let_def c_div_pos)
    then show "\<exists>cfg. get_default_config fp p = Inr cfg"
      using assms(3) s(1) os by (auto simp: get_default_config_def)
  qed
qed

text \<open>Eight threads, s8, \<open>1024 x 256 x 256\<close>: all eight splits go to M.\<close>

theorem int8_small_N_K_splits_only_M_witness:
  "valid_op \<lparr>num_threads = 8, iim_block = 32, iin_block = 64, iik_block = 64,
      plain_M = 1024, plain_K = 256, plain_N = 256, is_int8 = True, sizeofdtypeA = 1,
      sizeofdtypeC = 4, L2_size = 1048576\<rparr>
   \<and> padded_dims \<lparr>num_threads = 8, iim_block = 32, iin_block = 64, iik_block = 64,
      plain_M = 1024, plain_K = 256, plain_N = 256, is_int8 = True, sizeofdtypeA = 1,
      sizeofdtypeC = 4, L2_size = 1048576\<rparr> = Inr (1024, 256, 256)
   \<and> (256::int) \<le> 512
   \<and> (\<exists>cfg. get_default_config (\<lambda>a k c l. 0)
        \<lparr>num_threads = 8, iim_block = 32, iin_block = 64, iik_block = 64,
         plain_M = 1024, plain_K = 256, plain_N = 256, is_int8 = True, sizeofdtypeA = 1,
         sizeofdtypeC = 4, L2_size = 1048576\<rparr> = Inr cfg
        \<and> M_split_num cfg = 8 \<and> N_split_num cfg = 1)"
proof -
  let ?p = "\<lparr>num_threads = 8, iim_block = 32, iin_block = 64, iik_block = 64,
      plain_M = 1024, plain_K = 256, plain_N = 256, is_int8 = True, sizeofdtypeA = 1,
      sizeofdtypeC = 4, L2_size = 1048576\<rparr>"
  have v: "valid_op ?p" by (simp add: valid_op_def)
  have i: "is_int8 ?p" by simp
  have d: "padded_dims ?p = Inr (1024, 256, 256)" by code_simp
  have le: "(256::int) \<le> 512" by simp
  note a = int8_small_N_K_splits_only_M[OF v i d le le, of "\<lambda>a k c l. 0"]
  have "\<exists>cfg. get_default_config (\<lambda>a k c l. 0) ?p = Inr cfg"
    using a[THEN conjunct2, THEN conjunct2] by simp
  then obtain cfg where c: "get_default_config (\<lambda>a k c l. 0) ?p = Inr cfg" ..
  then have "M_split_num cfg = 8 \<and> N_split_num cfg = 1"
    using a[THEN conjunct2, THEN conjunct1] by simp
  then show ?thesis using v d c le by blast
qed

text \<open>
  Every configuration returned has \<open>M_sub_block\<close>, \<open>N_sub_block\<close> and \<open>K_sub_block\<close> at
  least 1, and \<open>K_sub_block\<close> is 1 below the threshold and the ceiling of \<open>K / T\<close> from it
  on, where the threshold \<open>T\<close> is \<open>2048 / sizeofdtypeA\<close> when the 32-bit value of
  \<open>single_M * single_N * sizeofdtypeA\<close> is below \<open>L2_size\<close> and \<open>4096 / sizeofdtypeA\<close>
  otherwise.
\<close>

lemma sub_blocks_at_least_one:
  assumes "valid_op p" and "get_default_config fp p = Inr cfg"
  shows "1 \<le> M_sub_block cfg \<and> 1 \<le> N_sub_block cfg \<and> 1 \<le> K_sub_block cfg
       \<and> (\<exists>M N K single_M single_N T. padded_dims p = Inr (M, N, K) \<and>
            single_extent M (iim_block p) (M_split_num cfg) = Inr single_M \<and>
            single_extent N (iin_block p) (N_split_num cfg) = Inr single_N \<and>
            T = (if wrap32 (wrap32 (single_M * single_N) * sizeofdtypeA p) < L2_size p
                 then 2048 else 4096) div sizeofdtypeA p \<and>
            K_sub_block cfg = (if K < T then 1 else (K + T - 1) div T))"
proof -
  obtain M N K s ms ns a b c where d: "padded_dims p = Inr (M, N, K)"
    and r: "size_sub_blocks fp p M N K ms ns = Inr (a, b, c)"
    and cfg: "cfg = \<lparr>M_split_num = ms, N_split_num = ns, M_sub_block = a, N_sub_block = b,
            K_sub_block = c, im_loop_order = 0\<rparr>"
    using assms(2) unfolding get_default_config_Inr_iff by blast
  have v: "sizeofdtypeA p = 1 \<or> sizeofdtypeA p = 2 \<or> sizeofdtypeA p = 4"
    using assms(1) by (simp add: valid_op_def)
  show ?thesis using size_sub_blocks_range[OF v r] d cfg by auto
qed

text \<open>
  Claim C7 says that \<open>K_sub_block = 1\<close> whenever \<open>K\<close> is below \<open>(2048 or 4096) / sizeof(A)\<close>,
  the choice depending on whether \<open>single_M * single_N * sizeof(A)\<close> fits in L2. One thread,
  f32, \<open>32768 x 768 x 32768\<close> with a cache of 1 MiB: the constructor chooses blocks of 16,
  the one thread owns \<open>32768 x 32768\<close>, the working set is \<open>2^32\<close> bytes and does not fit,
  so the threshold of the claim is \<open>4096 / 4 = 1024\<close> and \<open>K = 768\<close> is below it. The
  product of line 164 is an \<^verbatim>\<open>int\<close> and wraps to 0, the code takes the threshold 512, and
  the configuration returned has \<open>K_sub_block = 2\<close>. The value of \<^verbatim>\<open>L2_MN\<close> is
  \<open>(sqrt (3072^2 + 16 * 1048576) - 3072) / 8 = (5120 - 3072) / 8 = 256\<close>.
\<close>

theorem K_sub_block_threshold_overflow:
  "constructor_blocks f32 1 32768 768 32768 = Inr (16, 16, 16)
   \<and> padded_dims
     \<lparr>num_threads = 1, iim_block = 16, iin_block = 16, iik_block = 16,
      plain_M = 32768, plain_K = 768, plain_N = 32768, is_int8 = False, sizeofdtypeA = 4,
      sizeofdtypeC = 4, L2_size = 1048576\<rparr> = Inr (32768, 32768, 768)
   \<and> single_extent 32768 16 1 = Inr 32768
   \<and> (1048576::int) \<le> 32768 * 32768 * 4
   \<and> (768::int) < 4096 sdiv 4
   \<and> wrap32 (wrap32 (32768 * 32768) * 4) = 0
   \<and> single_K_threshold
     \<lparr>num_threads = 1, iim_block = 16, iin_block = 16, iik_block = 16,
      plain_M = 32768, plain_K = 768, plain_N = 32768, is_int8 = False, sizeofdtypeA = 4,
      sizeofdtypeC = 4, L2_size = 1048576\<rparr> 32768 32768 = Inr 512
   \<and> get_default_config (\<lambda>a k c l. 256)
     \<lparr>num_threads = 1, iim_block = 16, iin_block = 16, iik_block = 16,
      plain_M = 32768, plain_K = 768, plain_N = 32768, is_int8 = False, sizeofdtypeA = 4,
      sizeofdtypeC = 4, L2_size = 1048576\<rparr> =
     Inr \<lparr>M_split_num = 1, N_split_num = 1, M_sub_block = 128, N_sub_block = 128,
          K_sub_block = 2, im_loop_order = 0\<rparr>"
  by code_simp

text \<open>
  Claim C10. With \<open>K \<ge> 8192\<close> and \<open>M < N\<close>, when the searched \<open>M_split_num\<close> has at
  most two divisors (or \<open>N / M \<ge> 3\<close>) the override evaluates
  \<^verbatim>\<open>get_splits(num_threads).at(1)\<close>; that access is out of range exactly when
  \<open>num_threads = 1\<close>, where the whole function throws; with two or more threads it
  never throws \<^verbatim>\<open>out_of_range\<close>.
\<close>

theorem large_K_override_needs_two_threads:
  assumes "valid_op p" and "padded_dims p = Inr (M, N, K)" and "8192 \<le> K" and "M < N"
  shows "(\<forall>s. search_split_n p M N 1 1 FLT_MAX = Inr s \<and>
             (length (get_splits (num_threads p sdiv s)) \<le> 2 \<or> 3 \<le> N sdiv M) \<longrightarrow>
           apply_overrides p M N K s =
             bind_res (vector_at (get_splits (num_threads p)) 1) (\<lambda>K_split_num.
             bind_res (c_div (num_threads p) K_split_num) (\<lambda>ns. Inr (1, ns))))
       \<and> (vector_at (get_splits (num_threads p)) 1 = Inl OutOfRange \<longleftrightarrow> num_threads p = 1)
       \<and> (num_threads p = 1 \<longrightarrow> get_default_config fp p = Inl OutOfRange)
       \<and> (2 \<le> num_threads p \<longrightarrow> get_default_config fp p \<noteq> Inl OutOfRange)"
proof (intro conjI)
  note pf = padded_dims_facts[OF assms(1,2)]
  have nt: "1 \<le> num_threads p" using assms(1) by (simp add: valid_op_def)
  obtain s0 where s0: "search_split_n p M N 1 1 FLT_MAX = Inr s0" "1 \<le> s0" "s0 \<le> num_threads p"
    using search_split_n_valid[OF assms(1,2)] by blast
  have ov: "apply_overrides p M N K s =
             bind_res (vector_at (get_splits (num_threads p)) 1) (\<lambda>K_split_num.
             bind_res (c_div (num_threads p) K_split_num) (\<lambda>ns. Inr (1, ns)))"
    if "s \<noteq> 0" "length (get_splits (num_threads p sdiv s)) \<le> 2 \<or> 3 \<le> N sdiv M" for s
  proof -
    have "c_div N M = Inr (N sdiv M)" using pf by (simp add: c_div_def)
    then show ?thesis
      using that assms(3,4) by (auto simp: apply_overrides_def c_div_def Let_def)
  qed
  show "\<forall>s. search_split_n p M N 1 1 FLT_MAX = Inr s \<and>
             (length (get_splits (num_threads p sdiv s)) \<le> 2 \<or> 3 \<le> N sdiv M) \<longrightarrow>
           apply_overrides p M N K s =
             bind_res (vector_at (get_splits (num_threads p)) 1) (\<lambda>K_split_num.
             bind_res (c_div (num_threads p) K_split_num) (\<lambda>ns. Inr (1, ns)))"
    using ov s0 by auto
  show at1: "vector_at (get_splits (num_threads p)) 1 = Inl OutOfRange \<longleftrightarrow> num_threads p = 1"
    using nt by (rule vector_at_get_splits)
  show "num_threads p = 1 \<longrightarrow> get_default_config fp p = Inl OutOfRange"
  proof
    assume one: "num_threads p = 1"
    then have s1: "s0 = 1" using s0 by simp
    have "length (get_splits (num_threads p sdiv s0)) \<le> 2" using one s1 by (simp add: get_splits_1)
    then have "apply_overrides p M N K s0 = Inl OutOfRange"
      using ov[of s0] s1 at1 one by simp
    then show "get_default_config fp p = Inl OutOfRange"
      using assms(2) s0(1) by (simp add: get_default_config_def)
  qed
  show "2 \<le> num_threads p \<longrightarrow> get_default_config fp p \<noteq> Inl OutOfRange"
  proof (intro impI notI)
    assume two: "2 \<le> num_threads p" and e: "get_default_config fp p = Inl OutOfRange"
    have "apply_overrides p M N K s0 = Inl OutOfRange \<or>
          (\<exists>ms ns. size_sub_blocks fp p M N K ms ns = Inl OutOfRange)"
      using e assms(2) s0(1) by (auto simp: get_default_config_def bind_res_eq_Inl)
    then show False
    proof
      assume "apply_overrides p M N K s0 = Inl OutOfRange"
      then have "vector_at (get_splits (num_threads p)) 1 = Inl OutOfRange"
        using apply_overrides_error by blast
      then show False using at1 two by simp
    next
      assume "\<exists>ms ns. size_sub_blocks fp p M N K ms ns = Inl OutOfRange"
      then show False using size_sub_blocks_error by blast
    qed
  qed
qed

text \<open>One thread against two, f32, \<open>16 x 8192 x 32\<close>.\<close>

theorem large_K_override_needs_two_threads_witness:
  "valid_op \<lparr>num_threads = 1, iim_block = 16, iin_block = 16, iik_block = 16,
      plain_M = 16, plain_K = 8192, plain_N = 32, is_int8 = False, sizeofdtypeA = 4,
      sizeofdtypeC = 4, L2_size = 1048576\<rparr>
   \<and> padded_dims \<lparr>num_threads = 1, iim_block = 16, iin_block = 16, iik_block = 16,
      plain_M = 16, plain_K = 8192, plain_N = 32, is_int8 = False, sizeofdtypeA = 4,
      sizeofdtypeC = 4, L2_size = 1048576\<rparr> = Inr (16, 32, 8192)
   \<and> (8192::int) \<le> 8192 \<and> (16::int) < 32
   \<and> get_default_config (\<lambda>a k c l. 114)
       \<lparr>num_threads = 1, iim_block = 16, iin_block = 16, iik_block = 16,
        plain_M = 16, plain_K = 8192, plain_N = 32, is_int8 = False, sizeofdtypeA = 4,
        sizeofdtypeC = 4, L2_size = 1048576\<rparr> = Inl OutOfRange
   \<and> get_default_config (\<lambda>a k c l. 114)
       \<lparr>num_threads = 2, iim_block = 16, iin_block = 16, iik_block = 16,
        plain_M = 16, plain_K = 8192, plain_N = 32, is_int8 = False, sizeofdtypeA = 4,
        sizeofdtypeC = 4, L2_size = 1048576\<rparr> \<noteq> Inl OutOfRange"
proof -
  let ?p = "\<lparr>num_threads = 1, iim_block = 16, iin_block = 16, iik_block = 16,
      plain_M = 16, plain_K = 8192, plain_N = 32, is_int8 = False, sizeofdtypeA = 4,
      sizeofdtypeC = 4, L2_size = 1048576\<rparr>"
  let ?q = "\<lparr>num_threads = 2, iim_block = 16, iin_block = 16, iik_block = 16,
      plain_M = 16, plain_K = 8192, plain_N = 32, is_int8 = False, sizeofdtypeA = 4,
      sizeofdtypeC = 4, L2_size = 1048576\<rparr>"
  have v: "valid_op ?p" "valid_op ?q" by (simp_all add: valid_op_def)
  have d: "padded_dims ?p = Inr (16, 32, 8192)" "padded_dims ?q = Inr (16, 32, 8192)"
    by code_simp+
  have h: "(8192::int) \<le> 8192" "(16::int) < 32" by simp_all
  have "get_default_config (\<lambda>a k c l. 114) ?p = Inl OutOfRange"
    using large_K_override_needs_two_threads[OF v(1) d(1) h, of "\<lambda>a k c l. 114"] by simp
  moreover have "get_default_config (\<lambda>a k c l. 114) ?q \<noteq> Inl OutOfRange"
    using large_K_override_needs_two_threads[OF v(2) d(2) h, of "\<lambda>a k c l. 114"] by simp
  ultimately show ?thesis using v d h by blast
qed


section \<open>Validation of the configuration in \<^verbatim>\<open>generate\<close>\<close>

declare for_range.simps [simp del]

lemma rnd_up_valid:
  assumes "1 \<le> x" "1 \<le> b"
  shows "rnd_up x b = Inr (padded x b)"
  using assms by (simp add: rnd_up_def udc_pos padded_def)

lemma block_size_pair_valid:
  assumes "0 \<le> X" "1 \<le> b" "1 \<le> sn"
  shows "\<exists>bs ib. block_size_pair X b sn = Inr (bs, ib)"
  using assms
  by (simp add: block_size_pair_def c_div_pos udc_pos pos_imp_zdiv_nonneg_iff Let_def)

lemma generate_sizes_valid:
  assumes v: "valid_op p" and s: "1 \<le> M_split_num config" "1 \<le> N_split_num config"
    "M_split_num config * N_split_num config \<le> num_threads p"
  shows "\<exists>gs. generate_sizes p config = Inr gs \<and> 1 \<le> K_split_num gs"
proof -
  let ?nt = "num_threads p" and ?ms = "M_split_num config" and ?ns = "N_split_num config"
  have b: "1 \<le> iim_block p" "1 \<le> iin_block p" "1 \<le> iik_block p" "1 \<le> plain_M p" "1 \<le> plain_N p"
    "1 \<le> plain_K p" "1 \<le> ?nt"
    using v by (simp_all add: valid_op_def)
  have t: "c_div ?nt ?ms = Inr (?nt div ?ms)" using b s by (simp add: c_div_pos)
  have "(?ns * ?ms) div ?ms \<le> ?nt div ?ms"
    using s by (intro zdiv_mono1) (simp_all add: mult.commute)
  then have le: "?ns \<le> ?nt div ?ms" using s by simp
  then have k1: "1 \<le> ?nt div ?ms div ?ns" using div_by_pos_range(1)[of ?ns "?nt div ?ms"] s by simp
  have t2: "c_div (?nt div ?ms) ?ns = Inr (?nt div ?ms div ?ns)"
    using le s by (simp add: c_div_pos)
  have pM: "1 \<le> padded (plain_M p) (iim_block p)" "1 \<le> padded (plain_N p) (iin_block p)"
    "1 \<le> padded (plain_K p) (iik_block p)"
    using padded_props(4) b by simp_all
  obtain mbs mib where m: "block_size_pair (padded (plain_M p) (iim_block p)) (iim_block p) ?ms = Inr (mbs, mib)"
    using block_size_pair_valid[of "padded (plain_M p) (iim_block p)" "iim_block p" ?ms] pM b s by auto
  obtain nbs nib where n: "block_size_pair (padded (plain_N p) (iin_block p)) (iin_block p) ?ns = Inr (nbs, nib)"
    using block_size_pair_valid[of "padded (plain_N p) (iin_block p)" "iin_block p" ?ns] pM b s by auto
  obtain kbs kib where k: "block_size_pair (padded (plain_K p) (iik_block p)) (iik_block p) (?nt div ?ms div ?ns) = Inr (kbs, kib)"
    using block_size_pair_valid[of "padded (plain_K p) (iik_block p)" "iik_block p" "?nt div ?ms div ?ns"] pM b k1 by auto
  have bn: "\<exists>r. blk_num X Y (iim_block p) Z = Inr r" "\<exists>r. blk_num X Y (iin_block p) Z = Inr r" for X Y Z
    using b by (simp_all add: blk_num_def c_div_def)
  obtain mbn where mbn: "blk_num (padded (plain_M p) (iim_block p)) mbs (iim_block p) ?ms = Inr mbn"
    using bn(1) by blast
  obtain nbn where nbn: "blk_num (padded (plain_N p) (iin_block p)) nbs (iin_block p) ?ns = Inr nbn"
    using bn(2) by blast
  show ?thesis
    using t t2 m n k mbn nbn b k1 by (simp add: generate_sizes_def rnd_up_valid)
qed

lemma single_thread_matmul_call_error:
  "single_thread_matmul_call p g config Mi Ni part = Inl e \<Longrightarrow> e = AssertionFailed"
  by (simp add: single_thread_matmul_call_def split: if_splits)

lemma build_loops_error:
  "build_loops p g config gs = Inl e \<Longrightarrow> e = DivisionByZero \<or> e = AssertionFailed"
  by (auto simp: build_loops_def real_split_def Let_def bind_res_eq_Inl utils_divide_and_ceil_def
      c_div_eq_Inl dest: single_thread_matmul_call_error split: if_splits)

lemma check_B_format_error: "check_B_format g = Inl e \<Longrightarrow> e = Wrong_data_format_of_B"
  by (simp add: check_B_format_def split: if_splits)

lemma check_sub_blocks_Inr:
  "check_sub_blocks p config gs = Inr u \<longleftrightarrow>
     M_sub_block config \<le> M_block_size gs sdiv iim_block p \<and>
     M_sub_block config \<le> M_ib_block_size gs sdiv iim_block p \<and>
     N_sub_block config \<le> N_block_size gs sdiv iin_block p \<and>
     N_sub_block config \<le> N_ib_block_size gs sdiv iin_block p \<and>
     K_sub_block config \<le> K_block_size gs sdiv iik_block p \<and>
     K_sub_block config \<le> K_ib_block_size gs sdiv iik_block p"
  by (auto simp: check_sub_blocks_def)

lemma check_sub_blocks_error:
  "check_sub_blocks p config gs = Inl e \<Longrightarrow>
     e = Bad_M_sub_block \<or> e = Bad_N_sub_block \<or> e = Bad_K_sub_block"
  by (auto simp: check_sub_blocks_def split: if_splits)

lemma generate_config_error_iff:
  assumes "generate_sizes p config = Inr gs"
  shows "(generate p g config = Inl Bad_M_sub_block \<or> generate p g config = Inl Bad_N_sub_block \<or>
          generate p g config = Inl Bad_K_sub_block) \<longleftrightarrow>
         (M_sub_block config > M_block_size gs sdiv iim_block p \<or>
          M_sub_block config > M_ib_block_size gs sdiv iim_block p \<or>
          N_sub_block config > N_block_size gs sdiv iin_block p \<or>
          N_sub_block config > N_ib_block_size gs sdiv iin_block p \<or>
          K_sub_block config > K_block_size gs sdiv iik_block p \<or>
          K_sub_block config > K_ib_block_size gs sdiv iik_block p)"
    (is "?L \<longleftrightarrow> ?R")
proof (cases "check_sub_blocks p config gs")
  case (Inl e)
  then have "generate p g config = Inl e" using assms by (simp add: generate_def)
  moreover have "e = Bad_M_sub_block \<or> e = Bad_N_sub_block \<or> e = Bad_K_sub_block"
    using Inl by (rule check_sub_blocks_error)
  moreover have "?R" using Inl check_sub_blocks_Inr[of p config gs "()"] by auto
  ultimately show ?thesis by auto
next
  case (Inr u)
  then have nr: "\<not> ?R" using check_sub_blocks_Inr[of p config gs u] by auto
  have "generate p g config = bind_res (check_B_format g) (\<lambda>_. build_loops p g config gs)"
    using Inr assms by (simp add: generate_def)
  then have "generate p g config = Inl e \<Longrightarrow>
        e = DivisionByZero \<or> e = AssertionFailed \<or> e = Wrong_data_format_of_B" for e
    by (auto simp: bind_res_eq_Inl dest: build_loops_error check_B_format_error)
  then have "\<not> ?L" by auto
  then show ?thesis using nr by simp
qed

lemma generate_Inr_plan:
  assumes "generate p g config = Inr pl"
  shows "plan_config pl = config \<and> generate_sizes p config = Inr (plan_sizes pl)"
  using assms
  by (auto simp: generate_def build_loops_def Let_def bind_res_eq_Inr split: if_splits)

text \<open>
  Claim C8. For a valid operator and split numbers at least one whose product is at most the
  number of threads the sizes are computed without error, and \<^verbatim>\<open>generate\<close> stops with one of
  the three errors \<^verbatim>\<open>bad M_sub_block given\<close>, \<^verbatim>\<open>bad N_sub_block given\<close>,
  \<^verbatim>\<open>bad K_sub_block given\<close> if and only if a sub-block count of the configuration exceeds
  the number of blocks of the balanced or of the imbalanced thread along its axis. When a plan
  is returned it carries the configuration as supplied and the sizes as computed: nothing is
  clamped.
\<close>

theorem generate_config_validation:
  assumes "valid_op p" and "1 \<le> M_split_num config" and "1 \<le> N_split_num config"
    and "M_split_num config * N_split_num config \<le> num_threads p"
  shows "\<exists>gs. generate_sizes p config = Inr gs \<and>
          ((generate p g config = Inl Bad_M_sub_block \<or> generate p g config = Inl Bad_N_sub_block \<or>
            generate p g config = Inl Bad_K_sub_block) \<longleftrightarrow>
           (M_sub_block config > M_block_size gs sdiv iim_block p \<or>
            M_sub_block config > M_ib_block_size gs sdiv iim_block p \<or>
            N_sub_block config > N_block_size gs sdiv iin_block p \<or>
            N_sub_block config > N_ib_block_size gs sdiv iin_block p \<or>
            K_sub_block config > K_block_size gs sdiv iik_block p \<or>
            K_sub_block config > K_ib_block_size gs sdiv iik_block p)) \<and>
          (\<forall>pl. generate p g config = Inr pl \<longrightarrow> plan_config pl = config \<and> plan_sizes pl = gs)"
proof -
  obtain gs where gs: "generate_sizes p config = Inr gs"
    using generate_sizes_valid[OF assms] by blast
  show ?thesis
    using gs generate_config_error_iff[OF gs, of g] generate_Inr_plan[of p g config] by auto
qed

text \<open>
  The default configuration of the eight-thread \<open>256 x 8192 x 512\<close> problem gives each thread
  eight blocks along M: nine sub-blocks are refused, eight are accepted.
\<close>

theorem generate_config_validation_witness:
  "valid_op \<lparr>num_threads = 8, iim_block = 16, iin_block = 16, iik_block = 16,
        plain_M = 256, plain_K = 8192, plain_N = 512, is_int8 = False, sizeofdtypeA = 4,
        sizeofdtypeC = 4, L2_size = 1048576\<rparr>
   \<and> generate_sizes
       \<lparr>num_threads = 8, iim_block = 16, iin_block = 16, iik_block = 16,
        plain_M = 256, plain_K = 8192, plain_N = 512, is_int8 = False, sizeofdtypeA = 4,
        sizeofdtypeC = 4, L2_size = 1048576\<rparr>
       \<lparr>M_split_num = 2, N_split_num = 2, M_sub_block = 9, N_sub_block = 2,
        K_sub_block = 16, im_loop_order = 0\<rparr>
     = Inr \<lparr>K_split_num = 2, g_M = 256, g_K = 8192, g_N = 512, M_block_size = 128,
            M_ib_block_size = 128, N_block_size = 256, N_ib_block_size = 256,
            K_block_size = 4096, K_ib_block_size = 4096, M_blk_num = 2, N_blk_num = 2\<rparr>
   \<and> (128::int) sdiv 16 < 9
   \<and> (generate
       \<lparr>num_threads = 8, iim_block = 16, iin_block = 16, iik_block = 16,
        plain_M = 256, plain_K = 8192, plain_N = 512, is_int8 = False, sizeofdtypeA = 4,
        sizeofdtypeC = 4, L2_size = 1048576\<rparr>
       \<lparr>fusion = True, C_is_blocking = True, B_dtype = f32, B_format_blocks_2 = - 1,
        C_blocking_dims = [16, 32, 16, 16], vectorize_step_16 = 16\<rparr>
       \<lparr>M_split_num = 2, N_split_num = 2, M_sub_block = 9, N_sub_block = 2,
        K_sub_block = 16, im_loop_order = 0\<rparr>
      \<in> {Inl Bad_M_sub_block, Inl Bad_N_sub_block, Inl Bad_K_sub_block})
   \<and> (\<exists>pl. generate
       \<lparr>num_threads = 8, iim_block = 16, iin_block = 16, iik_block = 16,
        plain_M = 256, plain_K = 8192, plain_N = 512, is_int8 = False, sizeofdtypeA = 4,
        sizeofdtypeC = 4, L2_size = 1048576\<rparr>
       \<lparr>fusion = True, C_is_blocking = True, B_dtype = f32, B_format_blocks_2 = - 1,
        C_blocking_dims = [16, 32, 16, 16], vectorize_step_16 = 16\<rparr>
       \<lparr>M_split_num = 2, N_split_num = 2, M_sub_block = 8, N_sub_block = 2,
        K_sub_block = 16, im_loop_order = 0\<rparr> = Inr pl
      \<and> plan_config pl = \<lparr>M_split_num = 2, N_split_num = 2, M_sub_block = 8, N_sub_block = 2,
        K_sub_block = 16, im_loop_order = 0\<rparr>)"
proof -
  let ?p = "\<lparr>num_threads = 8, iim_block = 16, iin_block = 16, iik_block = 16,
        plain_M = 256, plain_K = 8192, plain_N = 512, is_int8 = False, sizeofdtypeA = 4,
        sizeofdtypeC = 4, L2_size = 1048576\<rparr>"
  let ?g = "\<lparr>fusion = True, C_is_blocking = True, B_dtype = f32, B_format_blocks_2 = - 1,
        C_blocking_dims = [16, 32, 16, 16], vectorize_step_16 = 16\<rparr>"
  let ?c9 = "\<lparr>M_split_num = 2, N_split_num = 2, M_sub_block = 9, N_sub_block = 2,
        K_sub_block = 16, im_loop_order = 0\<rparr>"
  let ?c8 = "\<lparr>M_split_num = 2, N_split_num = 2, M_sub_block = 8, N_sub_block = 2,
        K_sub_block = 16, im_loop_order = 0\<rparr>"
  let ?gs = "\<lparr>K_split_num = 2, g_M = 256, g_K = 8192, g_N = 512, M_block_size = 128,
            M_ib_block_size = 128, N_block_size = 256, N_ib_block_size = 256,
            K_block_size = 4096, K_ib_block_size = 4096, M_blk_num = 2, N_blk_num = 2\<rparr>"
  have v: "valid_op ?p" by (simp add: valid_op_def)
  have s9: "generate_sizes ?p ?c9 = Inr ?gs" by code_simp
  have lt: "(128::int) sdiv 16 < 9" by (simp add: sdiv_nonneg)
  have "generate ?p ?g ?c9 = Inl Bad_M_sub_block \<or> generate ?p ?g ?c9 = Inl Bad_N_sub_block \<or>
        generate ?p ?g ?c9 = Inl Bad_K_sub_block"
    using generate_config_validation[of ?p ?c9 ?g] v s9 lt by simp
  then have e9: "generate ?p ?g ?c9 \<in> {Inl Bad_M_sub_block, Inl Bad_N_sub_block, Inl Bad_K_sub_block}"
    by blast
  have "case generate ?p ?g ?c8 of Inl e \<Rightarrow> False | Inr pl \<Rightarrow> True" by code_simp
  then obtain pl where pl: "generate ?p ?g ?c8 = Inr pl" by (auto split: sum.splits)
  then have "plan_config pl = ?c8"
    using generate_config_validation[of ?p ?c8 ?g] v by simp
  then show ?thesis using v s9 lt e9 pl by blast
qed

section \<open>The fusion anchors of a thread tile its region\<close>

lemma cover_simps [simp]:
  "cover c [] = 0"
  "cover c (r # rs) = of_bool (c \<in> r) + cover c rs"
  "cover c (rs @ rs') = cover c rs + cover c rs'"
  by (simp_all add: cover_def)

lemma cover_concat_map:
  "cover c (concat (map f xs)) = sum_list (map (\<lambda>x. cover c (f x)) xs)"
  by (induction xs) simp_all

lemma cover_map_concat_map:
  "cover c (map h (concat (map f xs))) = sum_list (map (\<lambda>x. cover c (map h (f x))) xs)"
  by (induction xs) simp_all

lemma cover_pos_iff: "0 < cover c rs \<longleftrightarrow> (\<exists>r\<in>set rs. c \<in> r)"
  by (induction rs) auto

lemma cover_ge2:
  "i < j \<Longrightarrow> j < length rs \<Longrightarrow> c \<in> rs ! i \<Longrightarrow> c \<in> rs ! j \<Longrightarrow> 2 \<le> cover c rs"
proof (induction rs arbitrary: i j)
  case Nil
  then show ?case by simp
next
  case (Cons r rs)
  show ?case
  proof (cases i)
    case 0
    then have "c \<in> r" using Cons.prems by simp
    moreover have "c \<in> rs ! (j - 1)" "j - 1 < length rs" using Cons.prems 0 by (cases j; simp)+
    then have "0 < cover c rs" unfolding cover_pos_iff using nth_mem by blast
    ultimately show ?thesis by simp
  next
    case (Suc i')
    then obtain j' where j: "j = Suc j'" using Cons.prems by (cases j) simp_all
    have "2 \<le> cover c rs" using Cons.IH[of i' j'] Cons.prems Suc j by simp
    then show ?thesis by simp
  qed
qed

lemma tiles_if_cover:
  assumes "\<And>c. cover c rs = of_bool (c \<in> R)"
  shows "tiles rs R"
  unfolding tiles_def
proof (intro conjI allI impI)
  show "\<Union> (set rs) = R"
  proof (intro equalityI subsetI)
    fix c assume "c \<in> \<Union> (set rs)"
    then have "0 < cover c rs" by (auto simp: cover_pos_iff)
    then show "c \<in> R" using assms[of c] by (cases "c \<in> R") simp_all
  next
    fix c assume "c \<in> R"
    then have "0 < cover c rs" using assms[of c] by simp
    then show "c \<in> \<Union> (set rs)" by (auto simp: cover_pos_iff)
  qed
next
  fix i j assume ij: "i < length rs" "j < length rs" "i \<noteq> j"
  show "rs ! i \<inter> rs ! j = {}"
  proof (rule ccontr)
    assume "rs ! i \<inter> rs ! j \<noteq> {}"
    then obtain c where c: "c \<in> rs ! i" "c \<in> rs ! j" by blast
    have "2 \<le> cover c rs"
    proof (cases "i < j")
      case True then show ?thesis using cover_ge2[of i j rs c] ij c by simp
    next
      case False then show ?thesis using cover_ge2[of j i rs c] ij c by simp
    qed
    then show False using assms[of c] by (cases "c \<in> R") simp_all
  qed
qed

lemma upto_snoc: "0 \<le> t \<Longrightarrow> [0..t] = [0..t - 1] @ [t::int]"
  using upto_rec2[of 0 t] by simp

lemma chain_sum:
  fixes f :: "int \<Rightarrow> int"
  assumes "0 \<le> t" and "\<And>i. 0 \<le> i \<Longrightarrow> i < t \<Longrightarrow> f i \<le> f (i + 1)"
  shows "(\<Sum>i\<leftarrow>[0..t - 1]. of_bool (f i \<le> x \<and> x < f (i + 1))) = (of_bool (f 0 \<le> x \<and> x < f t) :: nat)"
  using assms
proof (induction t rule: int_ge_induct)
  case base
  then show ?case by simp
next
  case (step k)
  have m: "f 0 \<le> f k" using chain_mono[of "k + 1" f 0 k] step by simp
  have s: "f k \<le> f (k + 1)" using step by simp
  have ih: "(\<Sum>i\<leftarrow>[0..k - 1]. of_bool (f i \<le> x \<and> x < f (i + 1))) = (of_bool (f 0 \<le> x \<and> x < f k) :: nat)"
    using step by simp
  have "[0..k + 1 - 1] = [0..k - 1] @ [k]" using upto_snoc[of k] step by simp
  then show ?case using ih m s by (auto simp: of_bool_def)
qed

lemma sum_list_upto_conv_sum:
  "(\<Sum>b\<leftarrow>[0..c - 1]. g b) = sum g {0..<c::int}"
proof -
  have "set [0..c - 1] = {0..<c}" by auto
  then show ?thesis using sum_list_distinct_conv_sum_set[of "[0..c - 1]" g] by simp
qed

lemma rot_sum:
  fixes g :: "int \<Rightarrow> nat"
  assumes "0 \<le> tid"
  shows "(\<Sum>b\<leftarrow>[0..c - 1]. g ((b + tid) smod c)) = (\<Sum>b\<leftarrow>[0..c - 1]. g b)"
  unfolding sum_list_upto_conv_sum
  using sum.reindex_bij_betw[OF rotation_bij[OF assms, of c], of g] by simp

lemma sum_list_prod:
  fixes a :: "'a \<Rightarrow> nat" and b :: "'b \<Rightarrow> nat"
  shows "(\<Sum>x\<leftarrow>xs. \<Sum>y\<leftarrow>ys. a x * b y) = (\<Sum>x\<leftarrow>xs. a x) * (\<Sum>y\<leftarrow>ys. b y)"
  by (simp add: sum_list_const_mult sum_list_mult_const)

lemma sum_list_prod_swap:
  fixes a :: "'a \<Rightarrow> nat" and b :: "'b \<Rightarrow> nat"
  shows "(\<Sum>y\<leftarrow>ys. \<Sum>x\<leftarrow>xs. a x * b y) = (\<Sum>x\<leftarrow>xs. a x) * (\<Sum>y\<leftarrow>ys. b y)"
  by (simp add: sum_list_const_mult sum_list_mult_const mult.commute)

lemma sum_list_last_only:
  fixes v :: nat
  assumes "1 \<le> K"
  shows "(\<Sum>k\<leftarrow>[0..K - 1]. if k = K - 1 then v else 0) = v"
proof -
  have "[0..K - 1] = [0..K - 1 - 1] @ [K - 1]" using upto_snoc[of "K - 1"] assms by simp
  moreover have "(\<Sum>k\<leftarrow>[0..K - 1 - 1]. if k = K - 1 then v else 0) = 0"
    by (auto simp: sum_list_eq_0_iff)
  ultimately show ?thesis by simp
qed

lemma sdiv_exact: "b dvd a \<Longrightarrow> a sdiv b = a div (b::int)"
  by (simp add: signed_divide_int_eq_divide_int)

lemma block_rows_image:
  fixes a :: int
  assumes "0 < a"
  shows "(\<lambda>(b, i). b * a + i) ` ({bm..<bm + bl} \<times> {0..<0 + a}) = {bm * a..<(bm + bl) * a}"
proof (intro equalityI subsetI)
  fix x assume "x \<in> (\<lambda>(b, i). b * a + i) ` ({bm..<bm + bl} \<times> {0..<0 + a})"
  then obtain b i where x: "x = b * a + i" "bm \<le> b" "b < bm + bl" "0 \<le> i" "i < a" by auto
  have 1: "bm * a \<le> b * a" using x assms by (intro mult_right_mono) simp_all
  have "(b + 1) * a \<le> (bm + bl) * a" using x assms by (intro mult_right_mono) simp_all
  moreover have "(b + 1) * a = b * a + a" by (simp add: algebra_simps)
  ultimately have 2: "b * a + a \<le> (bm + bl) * a" by simp
  have "bm * a \<le> x" "x < (bm + bl) * a" using 1 2 x(1,4,5) by linarith+
  then show "x \<in> {bm * a..<(bm + bl) * a}" by simp
next
  fix x assume x: "x \<in> {bm * a..<(bm + bl) * a}"
  have dm: "x div a * a + x mod a = x" by (rule div_mult_mod_eq)
  have m: "0 \<le> x mod a" "x mod a < a" using assms by simp_all
  have "(bm * a) div a \<le> x div a" using x assms by (intro zdiv_mono1) simp_all
  then have lo: "bm \<le> x div a" using assms by simp
  have hi: "x div a < bm + bl"
  proof (rule ccontr)
    assume "\<not> x div a < bm + bl"
    then have "(bm + bl) * a \<le> x div a * a" using assms by (intro mult_right_mono) simp_all
    moreover have "x < (bm + bl) * a" using x by simp
    ultimately show False using dm m(1) by linarith
  qed
  have "x = (\<lambda>(b, i). b * a + i) (x div a, x mod a)" using dm by simp
  moreover have "(x div a, x mod a) \<in> {bm..<bm + bl} \<times> {0..<0 + a}" using lo hi m by simp
  ultimately show "x \<in> (\<lambda>(b, i). b * a + i) ` ({bm..<bm + bl} \<times> {0..<0 + a})"
    by (rule image_eqI)
qed

lemma slice_cells_plain:
  "slice_cells [(m0, ml), (n0, nl)] = {m0..<m0 + ml} \<times> {n0..<n0 + nl}"
  by (simp add: slice_cells_def)

lemma image_prod_prod: "(\<lambda>(u, v). (f u, h v)) ` (A \<times> B) = f ` A \<times> h ` B"
  by force

lemma slice_cells_blocking:
  assumes "0 < a" "0 < b"
  shows "slice_cells [(bm, bl), (bn, nl), (0, a), (0, b)] =
         {bm * a..<(bm + bl) * a} \<times> {bn * b..<(bn + nl) * b}"
proof -
  have "slice_cells [(bm, bl), (bn, nl), (0, a), (0, b)] =
        ((\<lambda>(b, i). b * a + i) ` ({bm..<bm + bl} \<times> {0..<0 + a})) \<times>
        ((\<lambda>(c, j). c * b + j) ` ({bn..<bn + nl} \<times> {0..<0 + b}))"
    using image_prod_prod[of "\<lambda>(b, i). b * a + i" "\<lambda>(c, j). c * b + j"
        "{bm..<bm + bl} \<times> {0..<0 + a}" "{bn..<bn + nl} \<times> {0..<0 + b}"]
    by (simp add: slice_cells_def case_prod_unfold)
  then show ?thesis using assms by (simp only: block_rows_image)
qed


lemma anchors_at_simps [simp]:
  "anchors_at s [] = []"
  "anchors_at s (e # tr) = (if fst e = s then anchor_slice (snd e) # anchors_at s tr else anchors_at s tr)"
  "anchors_at s (tr @ tr') = anchors_at s tr @ anchors_at s tr'"
  by (simp_all add: anchors_at_def)

lemma anchors_at_concat_map:
  "anchors_at s (concat (map f xs)) = concat (map (\<lambda>x. anchors_at s (f x)) xs)"
  by (induction xs) simp_all

lemma rows_of_rolled_blocks:
  fixes a :: int
  assumes "0 < a" "0 \<le> tid" "0 \<le> o_end"
  shows "(\<Sum>x_o\<leftarrow>[0..o_end - 1].
           of_bool (r \<in> {base + ((x_o + tid) smod o_end) * a..<base + ((x_o + tid) smod o_end) * a + a}))
         = (of_bool (r \<in> {base..<base + o_end * a}) :: nat)"
proof -
  let ?g = "\<lambda>b. (of_bool (r \<in> {base + b * a..<base + b * a + a}) :: nat)"
  have "(\<Sum>x_o\<leftarrow>[0..o_end - 1]. ?g ((x_o + tid) smod o_end)) = (\<Sum>b\<leftarrow>[0..o_end - 1]. ?g b)"
    using assms(2) by (rule rot_sum)
  also have "\<dots> = (\<Sum>b\<leftarrow>[0..o_end - 1].
       of_bool ((\<lambda>b. base + b * a) b \<le> r \<and> r < (\<lambda>b. base + b * a) (b + 1)))"
    by (simp add: algebra_simps)
  also have "\<dots> = of_bool ((\<lambda>b. base + b * a) 0 \<le> r \<and> r < (\<lambda>b. base + b * a) o_end)"
    using assms by (intro chain_sum) (simp_all add: algebra_simps)
  finally show ?thesis by simp
qed

lemma rows_of_sub_blocks:
  fixes a :: int
  assumes "0 < a" "0 < n" "0 < sub"
  shows "(\<Sum>x_b\<leftarrow>[0..sub - 1].
           of_bool (r \<in> {base + bal_start n sub x_b * a..<
                          base + bal_start n sub x_b * a + bal_length n sub x_b * a}))
         = (of_bool (r \<in> {base..<base + n * a}) :: nat)"
proof -
  let ?f = "\<lambda>b. base + bal_start n sub b * a"
  have st: "?f (b + 1) = ?f b + bal_length n sub b * a" for b
    using assms bal_start_step[of n sub b] by (simp add: distrib_right)
  have "(\<Sum>x_b\<leftarrow>[0..sub - 1].
           of_bool (r \<in> {?f x_b..<?f x_b + bal_length n sub x_b * a}))
        = (\<Sum>x_b\<leftarrow>[0..sub - 1]. (of_bool (?f x_b \<le> r \<and> r < ?f (x_b + 1)) :: nat))"
    by (simp only: st) simp
  also have "\<dots> = of_bool (?f 0 \<le> r \<and> r < ?f sub)"
  proof -
    have mono: "?f i \<le> ?f (i + 1)" if "0 \<le> i" "i < sub" for i
    proof -
      have "0 \<le> bal_length n sub i * a" using assms bal_length_nonneg[of n sub i] by simp
      then show ?thesis by (simp only: st)
    qed
    have le: "0 \<le> sub" using assms(3) by simp
    show ?thesis by (rule chain_sum[of sub ?f r, OF le mono])
  qed
  finally show ?thesis using assms by (simp add: bal_start_0 bal_start_team)
qed

lemma block_anchor_cells:
  assumes "0 < iim_block p" "0 < iin_block p" "iim_block p dvd ms" "iin_block p dvd ns"
  shows "slice_cells (anchor_slice (block_anchor p g ms ns)) =
         {ms..<ms + iim_block p} \<times> {ns..<ns + iin_block p}"
proof (cases "C_is_blocking g")
  case False
  then show ?thesis by (simp add: block_anchor_def slice_cells_plain)
next
  case True
  have "ms sdiv iim_block p * iim_block p = ms" "ns sdiv iin_block p * iin_block p = ns"
    using assms by (simp_all add: sdiv_exact)
  then have "(ms sdiv iim_block p + 1) * iim_block p = ms + iim_block p"
    "(ns sdiv iin_block p + 1) * iin_block p = ns + iin_block p"
    by (simp_all add: distrib_right)
  then show ?thesis
    using True assms \<open>ms sdiv iim_block p * iim_block p = ms\<close> \<open>ns sdiv iin_block p * iin_block p = ns\<close>
    by (simp add: block_anchor_def slice_cells_blocking)
qed

lemma of_bool_Times:
  "(of_bool ((r, c) \<in> A \<times> B) :: nat) = of_bool (r \<in> A) * of_bool (c \<in> B)"
  by simp

lemma cover_inner_block_loops:
  assumes b: "0 < iim_block p" "0 < iin_block p"
    and d: "iim_block p dvd m_idx" "iin_block p dvd n_idx"
    and t: "0 \<le> tid" and e: "0 \<le> m_o_end" "0 \<le> n_o_end"
  shows "cover (r, c) (map slice_cells (anchors_at Inner_block
           (inner_block_loops p g config m_idx n_idx m_b_idx n_b_idx m_o_end n_o_end tid k_b)))
       = (if k_b = K_sub_block config - 1
          then of_bool (r \<in> {m_idx + m_b_idx * iim_block p..<
                               m_idx + m_b_idx * iim_block p + m_o_end * iim_block p}) *
               of_bool (c \<in> {n_idx + n_b_idx * iin_block p..<
                               n_idx + n_b_idx * iin_block p + n_o_end * iin_block p})
          else 0)"
proof (cases "k_b = K_sub_block config - 1")
  case False
  then show ?thesis
    by (simp add: inner_block_loops_def anchors_at_concat_map cover_map_concat_map)
next
  case True
  let ?A = "\<lambda>m_o. (of_bool (r \<in> {m_start_idx p m_idx m_b_idx m_o_end tid m_o..<
                 m_start_idx p m_idx m_b_idx m_o_end tid m_o + iim_block p}) :: nat)"
  let ?B = "\<lambda>n_o. (of_bool (c \<in> {n_start_idx p n_idx n_b_idx n_o_end tid n_o..<
                 n_start_idx p n_idx n_b_idx n_o_end tid n_o + iin_block p}) :: nat)"
  have cell: "cover (r, c) (map slice_cells (anchors_at Inner_block
            [(Inner_block, block_anchor p g (m_start_idx p m_idx m_b_idx m_o_end tid m_o)
                                            (n_start_idx p n_idx n_b_idx n_o_end tid n_o))]))
        = ?A m_o * ?B n_o" for m_o n_o
  proof -
    have "iim_block p dvd m_start_idx p m_idx m_b_idx m_o_end tid m_o"
      "iin_block p dvd n_start_idx p n_idx n_b_idx n_o_end tid n_o"
      using d by (simp_all add: m_start_idx_def n_start_idx_def)
    then show ?thesis using b by (simp add: block_anchor_cells)
  qed
  have sA: "(\<Sum>m_o\<leftarrow>[0..m_o_end - 1]. ?A m_o) =
        of_bool (r \<in> {m_idx + m_b_idx * iim_block p..<
                       m_idx + m_b_idx * iim_block p + m_o_end * iim_block p})"
    using rows_of_rolled_blocks[of "iim_block p" tid m_o_end r "m_idx + m_b_idx * iim_block p"] b t e
    by (simp add: m_start_idx_def)
  have sB: "(\<Sum>n_o\<leftarrow>[0..n_o_end - 1]. ?B n_o) =
        of_bool (c \<in> {n_idx + n_b_idx * iin_block p..<
                       n_idx + n_b_idx * iin_block p + n_o_end * iin_block p})"
    using rows_of_rolled_blocks[of "iin_block p" tid n_o_end c "n_idx + n_b_idx * iin_block p"] b t e
    by (simp add: n_start_idx_def)
  have "cover (r, c) (map slice_cells (anchors_at Inner_block
           (inner_block_loops p g config m_idx n_idx m_b_idx n_b_idx m_o_end n_o_end tid k_b)))
       = (\<Sum>m_o\<leftarrow>[0..m_o_end - 1]. ?A m_o) * (\<Sum>n_o\<leftarrow>[0..n_o_end - 1]. ?B n_o)"
  proof (cases "im_loop_order config = 1")
    case False
    then show ?thesis using True
      by (simp add: inner_block_loops_def anchors_at_concat_map cover_map_concat_map cell
          sum_list_prod del: anchors_at_simps cover_simps concat_map_singleton)
  next
    case o: True
    then show ?thesis using True
      by (simp add: inner_block_loops_def anchors_at_concat_map cover_map_concat_map cell
          sum_list_prod_swap del: anchors_at_simps cover_simps concat_map_singleton)
  qed
  then show ?thesis using True by (simp only: sA sB) simp
qed

lemma balance211_parts:
  "balance211 n team idx = (bal_length n team idx, bal_start n team idx, bal_bigger_num n team)"
  by (simp add: bal_length_def bal_start_def bal_bigger_num_def balance211_def Let_def)

lemma block_size_pair_eq:
  assumes "1 \<le> Xb" "1 \<le> b" "1 \<le> sn"
  shows "block_size_pair (Xb * b) b sn =
         Inr (((Xb - 1) div sn + 1) * b,
              (if Xb div sn = 0 then (Xb - 1) div sn + 1 else Xb div sn) * b)"
proof -
  have 1: "c_div (Xb * b) b = Inr Xb" using assms by (simp add: c_div_pos)
  have 2: "utils_divide_and_ceil Xb sn = Inr ((Xb - 1) div sn + 1)"
    using assms divide_and_ceil_pos[of Xb sn]
    by (simp add: udc_pos divide_and_ceil_def sdiv_nonneg)
  have 3: "c_div Xb sn = Inr (Xb div sn)" using assms by (simp add: c_div_pos)
  show ?thesis using assms by (simp add: block_size_pair_def 1 2 3 Let_def)
qed

lemma blk_num_eq:
  assumes "1 \<le> Xb" "1 \<le> b" "1 \<le> sn"
  shows "blk_num (Xb * b) (((Xb - 1) div sn + 1) * b) b sn = Inr (bal_bigger_num Xb sn)"
proof -
  have "Xb * b - (((Xb - 1) div sn + 1) * b - b) * sn = (Xb - (Xb - 1) div sn * sn) * b"
    by (simp add: algebra_simps)
  moreover have "0 \<le> Xb - (Xb - 1) div sn * sn"
    using bigger_num_range(2)[of Xb sn] assms
    by (simp add: bal_bigger_num_eq divide_and_ceil_pos)
  ultimately show ?thesis
    using assms by (simp add: blk_num_def c_div_pos bal_bigger_num_eq divide_and_ceil_pos)
qed


lemma generate_sizes_eq:
  assumes v: "valid_op p" and s: "1 \<le> M_split_num config" "1 \<le> N_split_num config"
    and r: "generate_sizes p config = Inr gs"
  shows "g_M gs = n_blocks (plain_M p) (iim_block p) * iim_block p"
    and "g_N gs = n_blocks (plain_N p) (iin_block p) * iin_block p"
    and "g_K gs = n_blocks (plain_K p) (iik_block p) * iik_block p"
    and "M_block_size gs = ((n_blocks (plain_M p) (iim_block p) - 1) div M_split_num config + 1) * iim_block p"
    and "N_block_size gs = ((n_blocks (plain_N p) (iin_block p) - 1) div N_split_num config + 1) * iin_block p"
    and "M_ib_block_size gs =
           (if n_blocks (plain_M p) (iim_block p) div M_split_num config = 0
            then (n_blocks (plain_M p) (iim_block p) - 1) div M_split_num config + 1
            else n_blocks (plain_M p) (iim_block p) div M_split_num config) * iim_block p"
    and "N_ib_block_size gs =
           (if n_blocks (plain_N p) (iin_block p) div N_split_num config = 0
            then (n_blocks (plain_N p) (iin_block p) - 1) div N_split_num config + 1
            else n_blocks (plain_N p) (iin_block p) div N_split_num config) * iin_block p"
    and "M_blk_num gs = bal_bigger_num (n_blocks (plain_M p) (iim_block p)) (M_split_num config)"
    and "N_blk_num gs = bal_bigger_num (n_blocks (plain_N p) (iin_block p)) (N_split_num config)"
    and "K_split_num gs = num_threads p sdiv M_split_num config sdiv N_split_num config"
proof -
  have b: "1 \<le> iim_block p" "1 \<le> iin_block p" "1 \<le> iik_block p" "1 \<le> plain_M p" "1 \<le> plain_N p"
    "1 \<le> plain_K p"
    using v by (simp_all add: valid_op_def)
  have nb: "1 \<le> n_blocks (plain_M p) (iim_block p)" "1 \<le> n_blocks (plain_N p) (iin_block p)"
    using b by (simp_all add: n_blocks_def ceil_div_ge1)
  have pd: "padded (plain_M p) (iim_block p) = n_blocks (plain_M p) (iim_block p) * iim_block p"
    "padded (plain_N p) (iin_block p) = n_blocks (plain_N p) (iin_block p) * iin_block p"
    "padded (plain_K p) (iik_block p) = n_blocks (plain_K p) (iik_block p) * iik_block p"
    by (simp_all add: padded_def n_blocks_def)
  note e = r[unfolded generate_sizes_def bind_res_eq_Inr c_div_eq_Inr]
  have all: "g_M gs = n_blocks (plain_M p) (iim_block p) * iim_block p \<and>
    g_N gs = n_blocks (plain_N p) (iin_block p) * iin_block p \<and>
    g_K gs = n_blocks (plain_K p) (iik_block p) * iik_block p \<and>
    M_block_size gs = ((n_blocks (plain_M p) (iim_block p) - 1) div M_split_num config + 1) * iim_block p \<and>
    N_block_size gs = ((n_blocks (plain_N p) (iin_block p) - 1) div N_split_num config + 1) * iin_block p \<and>
    M_ib_block_size gs =
           (if n_blocks (plain_M p) (iim_block p) div M_split_num config = 0
            then (n_blocks (plain_M p) (iim_block p) - 1) div M_split_num config + 1
            else n_blocks (plain_M p) (iim_block p) div M_split_num config) * iim_block p \<and>
    N_ib_block_size gs =
           (if n_blocks (plain_N p) (iin_block p) div N_split_num config = 0
            then (n_blocks (plain_N p) (iin_block p) - 1) div N_split_num config + 1
            else n_blocks (plain_N p) (iin_block p) div N_split_num config) * iin_block p \<and>
    M_blk_num gs = bal_bigger_num (n_blocks (plain_M p) (iim_block p)) (M_split_num config) \<and>
    N_blk_num gs = bal_bigger_num (n_blocks (plain_N p) (iin_block p)) (N_split_num config) \<and>
    K_split_num gs = num_threads p sdiv M_split_num config sdiv N_split_num config"
    using r b
    unfolding generate_sizes_def
    by (auto simp: bind_res_eq_Inr c_div_eq_Inr rnd_up_valid pd
        block_size_pair_eq[OF nb(1) b(1) s(1)] block_size_pair_eq[OF nb(2) b(2) s(2)]
        blk_num_eq[OF nb(1) b(1) s(1)] blk_num_eq[OF nb(2) b(2) s(2)])
  show "g_M gs = n_blocks (plain_M p) (iim_block p) * iim_block p" using all by simp
  show "g_N gs = n_blocks (plain_N p) (iin_block p) * iin_block p" using all by simp
  show "g_K gs = n_blocks (plain_K p) (iik_block p) * iik_block p" using all by simp
  show "M_block_size gs = ((n_blocks (plain_M p) (iim_block p) - 1) div M_split_num config + 1) * iim_block p"
    using all by simp
  show "N_block_size gs = ((n_blocks (plain_N p) (iin_block p) - 1) div N_split_num config + 1) * iin_block p"
    using all by simp
  show "M_ib_block_size gs =
           (if n_blocks (plain_M p) (iim_block p) div M_split_num config = 0
            then (n_blocks (plain_M p) (iim_block p) - 1) div M_split_num config + 1
            else n_blocks (plain_M p) (iim_block p) div M_split_num config) * iim_block p"
    using all by simp
  show "N_ib_block_size gs =
           (if n_blocks (plain_N p) (iin_block p) div N_split_num config = 0
            then (n_blocks (plain_N p) (iin_block p) - 1) div N_split_num config + 1
            else n_blocks (plain_N p) (iin_block p) div N_split_num config) * iin_block p"
    using all by simp
  show "M_blk_num gs = bal_bigger_num (n_blocks (plain_M p) (iim_block p)) (M_split_num config)"
    using all by simp
  show "N_blk_num gs = bal_bigger_num (n_blocks (plain_N p) (iin_block p)) (N_split_num config)"
    using all by simp
  show "K_split_num gs = num_threads p sdiv M_split_num config sdiv N_split_num config"
    using all by simp
qed

lemma pred_div_mod:
  fixes n s :: int
  assumes "0 < s"
  shows "n mod s \<noteq> 0 \<Longrightarrow> (n - 1) div s = n div s \<and> (n - 1) mod s = n mod s - 1"
    and "n mod s = 0 \<Longrightarrow> (n - 1) div s = n div s - 1 \<and> (n - 1) mod s = s - 1"
proof -
  have e: "s * (n div s) + n mod s = n" by (rule mult_div_mod_eq)
  have m: "0 \<le> n mod s" "n mod s < s" using assms by simp_all
  {
    assume nz: "n mod s \<noteq> 0"
    have 1: "n - 1 = s * (n div s) + (n mod s - 1)" using e by simp
    have 2: "0 \<le> n mod s - 1" "n mod s - 1 < s" using m nz by simp_all
    show "(n - 1) div s = n div s \<and> (n - 1) mod s = n mod s - 1"
      using int_div_pos_eq[OF 1 2] int_mod_pos_eq[OF 1 2] by simp
  }
  {
    assume z: "n mod s = 0"
    have 1: "n - 1 = s * (n div s - 1) + (s - 1)" using e z by (simp add: algebra_simps)
    have 2: "0 \<le> s - 1" "s - 1 < s" using assms by simp_all
    show "(n - 1) div s = n div s - 1 \<and> (n - 1) mod s = s - 1"
      using int_div_pos_eq[OF 1 2] int_mod_pos_eq[OF 1 2] by simp
  }
qed

lemma bal_length_alt:
  assumes "0 < n" "0 < sub" "x_b < sub"
  shows "bal_length n sub x_b =
         n div sub + (if n mod sub \<noteq> 0 \<and> x_b < bal_bigger_num n sub then 1 else 0)"
proof (cases "n mod sub = 0")
  case True
  then have "(n - 1) div sub = n div sub - 1" "bal_bigger_num n sub = sub"
    using pred_div_mod(2)[of sub n] assms bigger_num_range(1)[of n sub] by simp_all
  then show ?thesis using assms True by (simp add: bal_length_closed)
next
  case False
  then have "(n - 1) div sub = n div sub"
    using pred_div_mod(1)[of sub n] assms by simp
  then show ?thesis using assms False by (simp add: bal_length_closed)
qed

lemma thread_blocks:
  assumes "1 \<le> n" "1 \<le> S" "0 \<le> x_s" "x_s < min n S"
  shows "1 \<le> bal_length n S x_s"
    and "bal_length n S x_s =
           (if x_s < bal_bigger_num n S then (n - 1) div S + 1
            else (if n div S = 0 then (n - 1) div S + 1 else n div S))"
proof -
  have q: "0 \<le> (n - 1) div S" using assms by (simp add: pos_imp_zdiv_nonneg_iff)
  have T: "bal_bigger_num n S = (n - 1) mod S + 1" using bigger_num_range(1)[of n S] assms by simp
  have len: "bal_length n S x_s = (n - 1) div S + (if x_s < bal_bigger_num n S then 1 else 0)"
    using assms by (simp add: bal_length_closed)
  have big: "n div S \<noteq> 0 \<and> (n - 1) div S = n div S" if ge: "\<not> x_s < bal_bigger_num n S"
  proof -
    have lt: "(n - 1) mod S + 1 < S" using ge T assms by simp
    have nz: "n mod S \<noteq> 0"
    proof
      assume "n mod S = 0"
      then have "(n - 1) mod S = S - 1" using pred_div_mod(2)[of S n] assms by simp
      then show False using lt by simp
    qed
    then have e: "(n - 1) div S = n div S" "(n - 1) mod S = n mod S - 1"
      using pred_div_mod(1)[of S n] assms by simp_all
    have "n div S \<noteq> 0"
    proof
      assume z: "n div S = 0"
      have "S * (n div S) + n mod S = n" by (rule mult_div_mod_eq)
      then have "n mod S = n" using z by simp
      then have "bal_bigger_num n S = n" using T e by simp
      then show False using ge assms by simp
    qed
    then show ?thesis using e by simp
  qed
  show eq: "bal_length n S x_s =
           (if x_s < bal_bigger_num n S then (n - 1) div S + 1
            else (if n div S = 0 then (n - 1) div S + 1 else n div S))"
    using len big by auto
  have "0 \<le> n div S" using assms by (simp add: pos_imp_zdiv_nonneg_iff)
  then show "1 \<le> bal_length n S x_s" using eq q big by (auto split: if_splits)
qed

lemma bal_start_lt:
  assumes "1 \<le> n" "1 \<le> S" "0 \<le> x_s" "x_s < min n S"
  shows "0 \<le> bal_start n S x_s" and "bal_start n S x_s < n"
proof -
  have step: "\<And>k. 0 \<le> k \<Longrightarrow> k < S \<Longrightarrow> bal_start n S k \<le> bal_start n S (k + 1)"
    using assms by (simp add: bal_start_step bal_length_nonneg)
  have "bal_start n S 0 \<le> bal_start n S x_s"
    using chain_mono[of S "bal_start n S" 0 x_s] step assms by simp
  then show "0 \<le> bal_start n S x_s" using assms by (simp add: bal_start_0)
  have "bal_start n S (x_s + 1) \<le> bal_start n S S"
    using chain_mono[of S "bal_start n S" "x_s + 1" S] step assms by simp
  then have "bal_start n S x_s + bal_length n S x_s \<le> n"
    using assms by (simp add: bal_start_step bal_start_team)
  then show "bal_start n S x_s < n" using thread_blocks(1)[OF assms] by simp
qed

lemma cover_sub_block_body_inner:
  assumes b: "0 < iim_block p" "0 < iin_block p"
    and d: "iim_block p dvd m_idx" "iin_block p dvd n_idx"
    and t: "0 \<le> tid" and f: "fusion g" "\<not> is_partial"
    and k: "1 \<le> K_sub_block config" "1 \<le> M_sub_block config" "1 \<le> N_sub_block config"
    and sz: "1 \<le> ml" "1 \<le> nl"
  shows "cover (r, c) (map slice_cells (anchors_at Inner_block
           (sub_block_body p g config Mi Ni is_partial (ml * iim_block p) (nl * iin_block p)
              m_idx n_idx m_s n_s tid m_b n_b)))
       = of_bool (r \<in> {m_idx + bal_start ml (M_sub_block config) m_b * iim_block p..<
                         m_idx + bal_start ml (M_sub_block config) m_b * iim_block p +
                         bal_length ml (M_sub_block config) m_b * iim_block p}) *
         of_bool (c \<in> {n_idx + bal_start nl (N_sub_block config) n_b * iin_block p..<
                         n_idx + bal_start nl (N_sub_block config) n_b * iin_block p +
                         bal_length nl (N_sub_block config) n_b * iin_block p})"
proof -
  have dv: "ml * iim_block p sdiv iim_block p = ml" "nl * iin_block p sdiv iin_block p = nl"
    using b by (simp_all add: sdiv_exact)
  have e: "0 \<le> bal_length ml (M_sub_block config) m_b" "0 \<le> bal_length nl (N_sub_block config) n_b"
    using sz k by (simp_all add: bal_length_nonneg)
  show ?thesis
    using f k(1)
    by (simp add: sub_block_body_def dv balance211_parts anchors_at_concat_map cover_map_concat_map
        cover_inner_block_loops[OF b d t e] sum_list_last_only
        del: cover_simps)
qed

lemma cover_thread_inner:
  assumes b: "0 < iim_block p" "0 < iin_block p"
    and d: "iim_block p dvd m_idx" "iin_block p dvd n_idx"
    and t: "0 \<le> tid" and f: "fusion g" "\<not> is_partial"
    and k: "1 \<le> K_sub_block config" "1 \<le> M_sub_block config" "1 \<le> N_sub_block config"
    and sz: "1 \<le> ml" "1 \<le> nl"
  shows "cover (r, c) (map slice_cells (anchors_at Inner_block
           (concat (map (\<lambda>m_b. concat (map (\<lambda>n_b.
              sub_block_body p g config Mi Ni is_partial (ml * iim_block p) (nl * iin_block p)
                m_idx n_idx m_s n_s tid m_b n_b)
              [0..N_sub_block config - 1])) [0..M_sub_block config - 1]))))
       = of_bool ((r, c) \<in> {m_idx..<m_idx + ml * iim_block p} \<times> {n_idx..<n_idx + nl * iin_block p})"
proof -
  have "cover (r, c) (map slice_cells (anchors_at Inner_block
           (concat (map (\<lambda>m_b. concat (map (\<lambda>n_b.
              sub_block_body p g config Mi Ni is_partial (ml * iim_block p) (nl * iin_block p)
                m_idx n_idx m_s n_s tid m_b n_b)
              [0..N_sub_block config - 1])) [0..M_sub_block config - 1]))))
    = (\<Sum>m_b\<leftarrow>[0..M_sub_block config - 1].
         of_bool (r \<in> {m_idx + bal_start ml (M_sub_block config) m_b * iim_block p..<
                         m_idx + bal_start ml (M_sub_block config) m_b * iim_block p +
                         bal_length ml (M_sub_block config) m_b * iim_block p})) *
      (\<Sum>n_b\<leftarrow>[0..N_sub_block config - 1].
         of_bool (c \<in> {n_idx + bal_start nl (N_sub_block config) n_b * iin_block p..<
                         n_idx + bal_start nl (N_sub_block config) n_b * iin_block p +
                         bal_length nl (N_sub_block config) n_b * iin_block p}))"
    by (simp add: anchors_at_concat_map cover_map_concat_map
        cover_sub_block_body_inner[OF b d t f k sz] sum_list_prod
        del: cover_simps anchors_at_simps)
  also have "\<dots> = of_bool (r \<in> {m_idx..<m_idx + ml * iim_block p}) *
                   of_bool (c \<in> {n_idx..<n_idx + nl * iin_block p})"
    using rows_of_sub_blocks[of "iim_block p" ml "M_sub_block config" r m_idx]
      rows_of_sub_blocks[of "iin_block p" nl "N_sub_block config" c n_idx] b k sz
    by simp
  finally show ?thesis by simp
qed

lemma anchors_at_none: "(\<And>e. e \<in> set tr \<Longrightarrow> fst e \<noteq> s) \<Longrightarrow> anchors_at s tr = []"
  by (induction tr) auto

lemma inner_block_loops_sites:
  "e \<in> set (inner_block_loops p g config m_idx n_idx m_b_idx n_b_idx m_o_end n_o_end tid k_b)
   \<Longrightarrow> fst e = Inner_block"
  by (auto simp: inner_block_loops_def Let_def split: if_splits)

lemma anchors_at_Sub_inner_loops:
  "anchors_at Sub_block (concat (map
      (inner_block_loops p g config m_idx n_idx m_b_idx n_b_idx m_o_end n_o_end tid) ks)) = []"
  by (rule anchors_at_none) (auto dest: inner_block_loops_sites)

lemma iterated_anchor_selects:
  "anchor_slice (Iterated_anchor
      (anchor_iter Mi Ni m_s n_s m_b n_b mbig nbig)
      (mm_multi_slice p g config Mi Ni m_idx n_idx m_b_idx n_b_idx)) =
   multi_slice_entry p g config Mi Ni m_idx n_idx m_b_idx n_b_idx
     (if m_s < Mi ! 0 then 0 else 1) (if n_s < Ni ! 0 then 0 else 1)
     (if m_b < mbig then 0 else 1) (if n_b < nbig then 0 else 1)"
  by (simp add: anchor_iter_def mm_multi_slice_def)


lemma smod_nonneg': "0 \<le> a \<Longrightarrow> 0 < b \<Longrightarrow> a smod b = a mod (b::int)"
  by (simp add: smod_nonneg)

lemma multi_slice_lengths_fst:
  assumes a: "0 < iim_block p" and s: "1 \<le> M_sub_block config" and l: "1 \<le> ml"
    and mb: "m_b < M_sub_block config"
    and mi: "Mi ! nat (pp + 1) = ml * iim_block p"
    and h: "C_is_blocking g \<or> ml mod M_sub_block config = 0"
  shows "fst (multi_slice_lengths p g config Mi Ni pp q
                (if m_b < bal_bigger_num ml (M_sub_block config) then 0 else 1) j) *
           (if C_is_blocking g then iim_block p else 1)
         = bal_length ml (M_sub_block config) m_b * iim_block p"
proof -
  have d: "ml * iim_block p sdiv iim_block p = ml" using a by (simp add: sdiv_exact)
  have sm: "ml smod M_sub_block config = ml mod M_sub_block config"
    "ml sdiv M_sub_block config = ml div M_sub_block config"
    using s l by (simp_all add: smod_nonneg sdiv_nonneg)
  have bl: "bal_length ml (M_sub_block config) m_b =
         ml div M_sub_block config +
         (if ml mod M_sub_block config \<noteq> 0 \<and> m_b < bal_bigger_num ml (M_sub_block config) then 1 else 0)"
    using bal_length_alt[of ml "M_sub_block config" m_b] s l mb by simp
  show ?thesis
  proof (cases "C_is_blocking g")
    case True
    then show ?thesis by (simp add: multi_slice_lengths_def Let_def mi d sm bl)
  next
    case False
    then have z: "ml mod M_sub_block config = 0" using h by simp
    then have dv: "M_sub_block config dvd ml" by (simp add: dvd_eq_mod_eq_0)
    have "ml * iim_block p sdiv M_sub_block config = ml * iim_block p div M_sub_block config"
      using s l a by (simp add: sdiv_nonneg)
    also have "\<dots> = ml div M_sub_block config * iim_block p"
      using dv by (simp add: div_mult_swap mult.commute)
    finally show ?thesis using False z by (simp add: multi_slice_lengths_def Let_def mi d sm bl)
  qed
qed

lemma multi_slice_lengths_snd:
  assumes a: "0 < iin_block p" and s: "1 \<le> N_sub_block config" and l: "1 \<le> nl"
    and nb: "n_b < N_sub_block config"
    and ni: "Ni ! nat (q + 1) = nl * iin_block p"
    and h: "C_is_blocking g \<or> nl mod N_sub_block config = 0"
  shows "snd (multi_slice_lengths p g config Mi Ni pp q i
                (if n_b < bal_bigger_num nl (N_sub_block config) then 0 else 1)) *
           (if C_is_blocking g then iin_block p else 1)
         = bal_length nl (N_sub_block config) n_b * iin_block p"
proof -
  have d: "nl * iin_block p sdiv iin_block p = nl" using a by (simp add: sdiv_exact)
  have sm: "nl smod N_sub_block config = nl mod N_sub_block config"
    "nl sdiv N_sub_block config = nl div N_sub_block config"
    using s l by (simp_all add: smod_nonneg sdiv_nonneg)
  have bl: "bal_length nl (N_sub_block config) n_b =
         nl div N_sub_block config +
         (if nl mod N_sub_block config \<noteq> 0 \<and> n_b < bal_bigger_num nl (N_sub_block config) then 1 else 0)"
    using bal_length_alt[of nl "N_sub_block config" n_b] s l nb by simp
  show ?thesis
  proof (cases "C_is_blocking g")
    case True
    then show ?thesis by (simp add: multi_slice_lengths_def Let_def ni d sm bl)
  next
    case False
    then have z: "nl mod N_sub_block config = 0" using h by simp
    then have dv: "N_sub_block config dvd nl" by (simp add: dvd_eq_mod_eq_0)
    have "nl * iin_block p sdiv N_sub_block config = nl * iin_block p div N_sub_block config"
      using s l a by (simp add: sdiv_nonneg)
    also have "\<dots> = nl div N_sub_block config * iin_block p"
      using dv by (simp add: div_mult_swap mult.commute)
    finally show ?thesis using False z by (simp add: multi_slice_lengths_def Let_def ni d sm bl)
  qed
qed

lemma two_range_cells:
  assumes a: "0 < a" "0 < b" and d: "a dvd ms" "b dvd ns"
    and lm: "LM * (if blk then a else 1) = EM" and ln: "LN * (if blk then b else 1) = EN"
  shows "slice_cells (if \<not> blk then [(ms, LM), (ns, LN)]
                      else [(ms sdiv a, LM), (ns sdiv b, LN), (0, a), (0, b)])
         = {ms..<ms + EM} \<times> {ns..<ns + EN}"
proof (cases blk)
  case False
  then show ?thesis using lm ln by (simp add: slice_cells_plain)
next
  case True
  have "ms sdiv a * a = ms" "ns sdiv b * b = ns" using d by (simp_all add: sdiv_exact)
  then have "(ms sdiv a + LM) * a = ms + EM" "(ns sdiv b + LN) * b = ns + EN"
    "ms sdiv a * a = ms" "ns sdiv b * b = ns"
    using lm ln True by (simp_all add: distrib_right)
  then show ?thesis using True a by (simp add: slice_cells_blocking)
qed

lemma sub_block_anchor_cells:
  assumes b: "0 < iim_block p" "0 < iin_block p"
    and d: "iim_block p dvd m_idx" "iin_block p dvd n_idx"
    and k: "1 \<le> M_sub_block config" "1 \<le> N_sub_block config"
    and sz: "1 \<le> ml" "1 \<le> nl"
    and r: "m_b < M_sub_block config" "n_b < N_sub_block config"
    and mi: "Mi ! nat ((if m_s < Mi ! 0 then 0 else 1) + 1) = ml * iim_block p"
            "Mi ! 1 = Mi ! 2 \<longrightarrow> Mi ! 1 = ml * iim_block p"
    and ni: "Ni ! nat ((if n_s < Ni ! 0 then 0 else 1) + 1) = nl * iin_block p"
            "Ni ! 1 = Ni ! 2 \<longrightarrow> Ni ! 1 = nl * iin_block p"
    and h: "C_is_blocking g \<or>
            (ml mod M_sub_block config = 0 \<and> nl mod N_sub_block config = 0)"
  shows "slice_cells (anchor_slice
           (if case1 p config Mi Ni
            then Output_anchor (case1_slice p g config Mi Ni m_idx n_idx
                   (bal_start ml (M_sub_block config) m_b) (bal_start nl (N_sub_block config) n_b))
            else Iterated_anchor
                   (anchor_iter Mi Ni m_s n_s m_b n_b
                      (bal_bigger_num ml (M_sub_block config)) (bal_bigger_num nl (N_sub_block config)))
                   (mm_multi_slice p g config Mi Ni m_idx n_idx
                      (bal_start ml (M_sub_block config) m_b) (bal_start nl (N_sub_block config) n_b))))
       = {m_idx + bal_start ml (M_sub_block config) m_b * iim_block p..<
          m_idx + bal_start ml (M_sub_block config) m_b * iim_block p +
          bal_length ml (M_sub_block config) m_b * iim_block p} \<times>
         {n_idx + bal_start nl (N_sub_block config) n_b * iin_block p..<
          n_idx + bal_start nl (N_sub_block config) n_b * iin_block p +
          bal_length nl (N_sub_block config) n_b * iin_block p}"
proof -
  let ?ms = "m_idx + bal_start ml (M_sub_block config) m_b * iim_block p"
  let ?ns = "n_idx + bal_start nl (N_sub_block config) n_b * iin_block p"
  have dv: "iim_block p dvd ?ms" "iin_block p dvd ?ns" using d by simp_all
  show ?thesis
  proof (cases "case1 p config Mi Ni")
    case False
    let ?pp = "if m_s < Mi ! 0 then 0 else 1 :: int" and ?q = "if n_s < Ni ! 0 then 0 else 1 :: int"
    let ?i = "if m_b < bal_bigger_num ml (M_sub_block config) then 0 else 1 :: int"
    let ?j = "if n_b < bal_bigger_num nl (N_sub_block config) then 0 else 1 :: int"
    have hm: "C_is_blocking g \<or> ml mod M_sub_block config = 0"
      and hn: "C_is_blocking g \<or> nl mod N_sub_block config = 0" using h by auto
    note lm = multi_slice_lengths_fst[OF b(1) k(1) sz(1) r(1) mi(1) hm, of Ni ?q ?j]
    note ln = multi_slice_lengths_snd[OF b(2) k(2) sz(2) r(2) ni(1) hn, of Mi ?pp ?i]
    have "slice_cells (multi_slice_entry p g config Mi Ni m_idx n_idx
              (bal_start ml (M_sub_block config) m_b) (bal_start nl (N_sub_block config) n_b)
              ?pp ?q ?i ?j)
          = {?ms..<?ms + bal_length ml (M_sub_block config) m_b * iim_block p} \<times>
            {?ns..<?ns + bal_length nl (N_sub_block config) n_b * iin_block p}"
      unfolding multi_slice_entry_def Let_def case_prod_unfold
      by (rule two_range_cells[OF b dv lm ln])
    then show ?thesis using False by (simp only: iterated_anchor_selects if_False)
  next
    case True
    then have c0: "Mi ! 1 = Mi ! 2" "Ni ! 1 = Ni ! 2"
      "(Mi ! 1 sdiv iim_block p) smod M_sub_block config = 0"
      "(Ni ! 1 sdiv iin_block p) smod N_sub_block config = 0"
      unfolding case1_def by blast+
    have c: "Mi ! 1 = ml * iim_block p" "Ni ! 1 = nl * iin_block p"
      "(Mi ! 1 sdiv iim_block p) smod M_sub_block config = 0"
      "(Ni ! 1 sdiv iin_block p) smod N_sub_block config = 0"
      using mi(2) ni(2) c0 by blast+
    have dd: "ml * iim_block p sdiv iim_block p = ml" "nl * iin_block p sdiv iin_block p = nl"
      using b by (simp_all add: sdiv_exact)
    have z: "ml mod M_sub_block config = 0" "nl mod N_sub_block config = 0"
      using c(3,4)[unfolded c(1,2) dd] k sz by (simp_all add: smod_nonneg)
    have bl: "bal_length ml (M_sub_block config) m_b = ml div M_sub_block config"
      "bal_length nl (N_sub_block config) n_b = nl div N_sub_block config"
      using bal_length_alt[of ml "M_sub_block config" m_b] bal_length_alt[of nl "N_sub_block config" n_b]
        z k sz r by simp_all
    have dvm: "M_sub_block config dvd ml" "N_sub_block config dvd nl"
      using z by (simp_all add: dvd_eq_mod_eq_0)
    have e1: "ml * iim_block p sdiv M_sub_block config = ml div M_sub_block config * iim_block p"
      using dvm(1) k sz b by (simp add: sdiv_nonneg div_mult_swap mult.commute)
    have e2: "nl * iin_block p sdiv N_sub_block config = nl div N_sub_block config * iin_block p"
      using dvm(2) k sz b by (simp add: sdiv_nonneg div_mult_swap mult.commute)
    have e3: "ml sdiv M_sub_block config = ml div M_sub_block config"
      "nl sdiv N_sub_block config = nl div N_sub_block config"
      using k sz by (simp_all add: sdiv_nonneg)
    have "slice_cells (case1_slice p g config Mi Ni m_idx n_idx
              (bal_start ml (M_sub_block config) m_b) (bal_start nl (N_sub_block config) n_b))
          = {?ms..<?ms + bal_length ml (M_sub_block config) m_b * iim_block p} \<times>
            {?ns..<?ns + bal_length nl (N_sub_block config) n_b * iin_block p}"
    proof (cases "C_is_blocking g")
      case blk: True
      have lm: "(Mi ! 1 sdiv iim_block p sdiv M_sub_block config) * (if True then iim_block p else 1)
              = bal_length ml (M_sub_block config) m_b * iim_block p"
        unfolding c(1) by (simp add: dd e3 bl)
      have ln: "(Ni ! 1 sdiv iin_block p sdiv N_sub_block config) * (if True then iin_block p else 1)
              = bal_length nl (N_sub_block config) n_b * iin_block p"
        unfolding c(2) by (simp add: dd e3 bl)
      show ?thesis
        using two_range_cells[OF b dv lm ln] blk by (simp add: case1_slice_def)
    next
      case pl: False
      have lm: "(Mi ! 1 sdiv M_sub_block config) * (if False then iim_block p else 1)
              = bal_length ml (M_sub_block config) m_b * iim_block p"
        unfolding c(1) by (simp add: e1 bl)
      have ln: "(Ni ! 1 sdiv N_sub_block config) * (if False then iin_block p else 1)
              = bal_length nl (N_sub_block config) n_b * iin_block p"
        unfolding c(2) by (simp add: e2 bl)
      show ?thesis
        using two_range_cells[OF b dv lm ln] pl by (simp add: case1_slice_def)
    qed
    then show ?thesis using True by simp
  qed
qed

lemma sum_list_map_cong:
  "(\<And>x. x \<in> set xs \<Longrightarrow> f x = h x) \<Longrightarrow> sum_list (map f xs) = sum_list (map h xs)"
  by (induction xs) simp_all

lemma anchors_at_Sub_sub_block_body:
  assumes "fusion g" "\<not> is_partial"
  shows "anchors_at Sub_block
           (sub_block_body p g config Mi Ni is_partial (ml * iim_block p) (nl * iin_block p)
              m_idx n_idx m_s n_s tid m_b n_b) =
         [anchor_slice
           (if case1 p config Mi Ni
            then Output_anchor (case1_slice p g config Mi Ni m_idx n_idx
                   (bal_start (ml * iim_block p sdiv iim_block p) (M_sub_block config) m_b)
                   (bal_start (nl * iin_block p sdiv iin_block p) (N_sub_block config) n_b))
            else Iterated_anchor
                   (anchor_iter Mi Ni m_s n_s m_b n_b
                      (bal_bigger_num (ml * iim_block p sdiv iim_block p) (M_sub_block config))
                      (bal_bigger_num (nl * iin_block p sdiv iin_block p) (N_sub_block config)))
                   (mm_multi_slice p g config Mi Ni m_idx n_idx
                      (bal_start (ml * iim_block p sdiv iim_block p) (M_sub_block config) m_b)
                      (bal_start (nl * iin_block p sdiv iin_block p) (N_sub_block config) n_b)))]"
  using assms
  by (simp add: sub_block_body_def balance211_parts anchors_at_Sub_inner_loops
      del: anchor_slice.simps)

lemma cover_thread_sub:
  assumes b: "0 < iim_block p" "0 < iin_block p"
    and d: "iim_block p dvd m_idx" "iin_block p dvd n_idx"
    and f: "fusion g" "\<not> is_partial"
    and k: "1 \<le> M_sub_block config" "1 \<le> N_sub_block config"
    and sz: "1 \<le> ml" "1 \<le> nl"
    and mi: "Mi ! nat ((if m_s < Mi ! 0 then 0 else 1) + 1) = ml * iim_block p"
            "Mi ! 1 = Mi ! 2 \<longrightarrow> Mi ! 1 = ml * iim_block p"
    and ni: "Ni ! nat ((if n_s < Ni ! 0 then 0 else 1) + 1) = nl * iin_block p"
            "Ni ! 1 = Ni ! 2 \<longrightarrow> Ni ! 1 = nl * iin_block p"
    and h: "C_is_blocking g \<or>
            (ml mod M_sub_block config = 0 \<and> nl mod N_sub_block config = 0)"
  shows "cover (r, c) (map slice_cells (anchors_at Sub_block
           (concat (map (\<lambda>m_b. concat (map (\<lambda>n_b.
              sub_block_body p g config Mi Ni is_partial (ml * iim_block p) (nl * iin_block p)
                m_idx n_idx m_s n_s tid m_b n_b)
              [0..N_sub_block config - 1])) [0..M_sub_block config - 1]))))
       = of_bool ((r, c) \<in> {m_idx..<m_idx + ml * iim_block p} \<times> {n_idx..<n_idx + nl * iin_block p})"
proof -
  let ?A = "\<lambda>m_b. (of_bool (r \<in> {m_idx + bal_start ml (M_sub_block config) m_b * iim_block p..<
                         m_idx + bal_start ml (M_sub_block config) m_b * iim_block p +
                         bal_length ml (M_sub_block config) m_b * iim_block p}) :: nat)"
  let ?B = "\<lambda>n_b. (of_bool (c \<in> {n_idx + bal_start nl (N_sub_block config) n_b * iin_block p..<
                         n_idx + bal_start nl (N_sub_block config) n_b * iin_block p +
                         bal_length nl (N_sub_block config) n_b * iin_block p}) :: nat)"
  have dv: "ml * iim_block p sdiv iim_block p = ml" "nl * iin_block p sdiv iin_block p = nl"
    using b by (simp_all add: sdiv_exact)
  have one: "cover (r, c) (map slice_cells (anchors_at Sub_block
              (sub_block_body p g config Mi Ni is_partial (ml * iim_block p) (nl * iin_block p)
                m_idx n_idx m_s n_s tid m_b n_b))) = ?A m_b * ?B n_b"
    if "m_b \<in> set [0..M_sub_block config - 1]" "n_b \<in> set [0..N_sub_block config - 1]" for m_b n_b
  proof -
    have r: "m_b < M_sub_block config" "n_b < N_sub_block config" using that by simp_all
    show ?thesis
      unfolding anchors_at_Sub_sub_block_body[OF f] dv
      using sub_block_anchor_cells[OF b d k sz r mi ni h]
      by (simp del: anchor_slice.simps)
  qed
  have "cover (r, c) (map slice_cells (anchors_at Sub_block
           (concat (map (\<lambda>m_b. concat (map (\<lambda>n_b.
              sub_block_body p g config Mi Ni is_partial (ml * iim_block p) (nl * iin_block p)
                m_idx n_idx m_s n_s tid m_b n_b)
              [0..N_sub_block config - 1])) [0..M_sub_block config - 1]))))
       = (\<Sum>m_b\<leftarrow>[0..M_sub_block config - 1]. \<Sum>n_b\<leftarrow>[0..N_sub_block config - 1].
            cover (r, c) (map slice_cells (anchors_at Sub_block
              (sub_block_body p g config Mi Ni is_partial (ml * iim_block p) (nl * iin_block p)
                m_idx n_idx m_s n_s tid m_b n_b))))"
    by (simp add: anchors_at_concat_map cover_map_concat_map del: cover_simps anchors_at_simps)
  also have "\<dots> = (\<Sum>m_b\<leftarrow>[0..M_sub_block config - 1]. \<Sum>n_b\<leftarrow>[0..N_sub_block config - 1].
            ?A m_b * ?B n_b)"
    by (intro sum_list_map_cong) (simp only: one)
  also have "\<dots> = (\<Sum>m_b\<leftarrow>[0..M_sub_block config - 1]. ?A m_b) *
                   (\<Sum>n_b\<leftarrow>[0..N_sub_block config - 1]. ?B n_b)"
    by (rule sum_list_prod)
  also have "\<dots> = of_bool (r \<in> {m_idx..<m_idx + ml * iim_block p}) *
                   of_bool (c \<in> {n_idx..<n_idx + nl * iin_block p})"
    using rows_of_sub_blocks[of "iim_block p" ml "M_sub_block config" r m_idx]
      rows_of_sub_blocks[of "iin_block p" nl "N_sub_block config" c n_idx] b k sz
    by simp
  finally show ?thesis by simp
qed

lemma single_thread_matmul_call_Inr:
  assumes "single_thread_matmul_call p g config Mi Ni part = Inr body"
  shows "1 \<le> M_sub_block config" "1 \<le> N_sub_block config" "1 \<le> K_sub_block config"
    and "body = (\<lambda>M N m_idx n_idx m_s n_s tid.
             concat (map (\<lambda>m_b. concat (map (\<lambda>n_b.
                 sub_block_body p g config Mi Ni part M N m_idx n_idx m_s n_s tid m_b n_b)
               [0..N_sub_block config - 1])) [0..M_sub_block config - 1]))"
  using assms by (auto simp: single_thread_matmul_call_def split: if_splits)

lemma generate_Inr_facts:
  assumes "generate p g config = Inr pl"
  shows "\<exists>gs Mc Nc Kc body.
      generate_sizes p config = Inr gs \<and> plan_sizes pl = gs \<and> plan_config pl = config \<and>
      M_sub_block config \<le> M_block_size gs sdiv iim_block p \<and>
      M_sub_block config \<le> M_ib_block_size gs sdiv iim_block p \<and>
      N_sub_block config \<le> N_block_size gs sdiv iin_block p \<and>
      N_sub_block config \<le> N_ib_block_size gs sdiv iin_block p \<and>
      K_sub_block config \<le> K_block_size gs sdiv iik_block p \<and>
      K_sub_block config \<le> K_ib_block_size gs sdiv iik_block p \<and>
      utils_divide_and_ceil (g_M gs) (iim_block p) = Inr Mc \<and>
      utils_divide_and_ceil (g_N gs) (iin_block p) = Inr Nc \<and>
      utils_divide_and_ceil (g_K gs) (iik_block p) = Inr Kc \<and>
      M_real_split pl = min Mc (M_split_num config) \<and>
      N_real_split pl = min Nc (N_split_num config) \<and>
      K_real_split pl = min Kc (K_split_num gs) \<and>
      1 \<le> M_split_num config \<and> 1 \<le> N_split_num config \<and>
      (K_split_num gs \<noteq> 1 \<longrightarrow> 1 \<le> K_split_num gs) \<and>
      single_thread_matmul_call p g config [M_blk_num gs, M_block_size gs, M_ib_block_size gs]
        [N_blk_num gs, N_block_size gs, N_ib_block_size gs] (K_split_num gs \<noteq> 1) = Inr body \<and>
      out_tmp_buf_shape pl =
        (if K_split_num gs \<noteq> 1 then Some (K_real_split pl # C_blocking_dims g) else None) \<and>
      thread_body pl =
        thread_loop p config gs (if K_split_num gs \<noteq> 1 then K_real_split pl else K_split_num gs) body \<and>
      reduce_body pl =
        (if K_split_num gs \<noteq> 1 then reduce_phase p g config gs (K_real_split pl)
         else (\<lambda>m_s n_s. []))"
proof -
  obtain gs u1 u2 where gs: "generate_sizes p config = Inr gs"
    and c: "check_sub_blocks p config gs = Inr u1"
    and bl: "build_loops p g config gs = Inr pl"
    using assms by (auto simp: generate_def bind_res_eq_Inr)
  obtain Mc Nc Kc where rs: "utils_divide_and_ceil (g_M gs) (iim_block p) = Inr Mc"
    "utils_divide_and_ceil (g_N gs) (iin_block p) = Inr Nc"
    "utils_divide_and_ceil (g_K gs) (iik_block p) = Inr Kc"
    using bl by (auto simp: build_loops_def real_split_def bind_res_eq_Inr)
  have bl2: "(if M_split_num config < 1 \<or> N_split_num config < 1 \<or>
                 (K_split_num gs \<noteq> 1 \<and> K_split_num gs < 1)
       then Inl AssertionFailed
       else
     bind_res (single_thread_matmul_call p g config [M_blk_num gs, M_block_size gs, M_ib_block_size gs]
        [N_blk_num gs, N_block_size gs, N_ib_block_size gs] (K_split_num gs \<noteq> 1)) (\<lambda>body.
       Inr \<lparr>plan_sizes = gs, plan_config = config,
            M_real_split = min Mc (M_split_num config), N_real_split = min Nc (N_split_num config),
            K_real_split = min Kc (K_split_num gs),
            out_tmp_buf_shape = (if K_split_num gs \<noteq> 1
                 then Some (min Kc (K_split_num gs) # C_blocking_dims g) else None),
            thread_body = thread_loop p config gs
               (if K_split_num gs \<noteq> 1 then min Kc (K_split_num gs) else K_split_num gs) body,
            reduce_body = (if K_split_num gs \<noteq> 1
               then reduce_phase p g config gs (min Kc (K_split_num gs))
               else (\<lambda>m_s n_s. []))\<rparr>)) = Inr pl"
    using bl by (simp add: build_loops_def real_split_def rs Let_def)
  then have as: "1 \<le> M_split_num config" "1 \<le> N_split_num config"
    "K_split_num gs \<noteq> 1 \<longrightarrow> 1 \<le> K_split_num gs"
    by (auto split: if_splits)
  then obtain body where body: "single_thread_matmul_call p g config
        [M_blk_num gs, M_block_size gs, M_ib_block_size gs]
        [N_blk_num gs, N_block_size gs, N_ib_block_size gs] (K_split_num gs \<noteq> 1) = Inr body"
    and pl: "pl = \<lparr>plan_sizes = gs, plan_config = config,
            M_real_split = min Mc (M_split_num config), N_real_split = min Nc (N_split_num config),
            K_real_split = min Kc (K_split_num gs),
            out_tmp_buf_shape = (if K_split_num gs \<noteq> 1
                 then Some (min Kc (K_split_num gs) # C_blocking_dims g) else None),
            thread_body = thread_loop p config gs
               (if K_split_num gs \<noteq> 1 then min Kc (K_split_num gs) else K_split_num gs) body,
            reduce_body = (if K_split_num gs \<noteq> 1
               then reduce_phase p g config gs (min Kc (K_split_num gs))
               else (\<lambda>m_s n_s. []))\<rparr>"
    using bl2 by (auto simp: bind_res_eq_Inr split: if_splits)
  show ?thesis
    using gs c[unfolded check_sub_blocks_Inr] rs as body
    by (intro exI[of _ gs] exI[of _ Mc] exI[of _ Nc] exI[of _ Kc] exI[of _ body]) (simp add: pl)
qed

lemma udc_exact:
  assumes "1 \<le> Xb" "1 \<le> b"
  shows "utils_divide_and_ceil (Xb * b) b = Inr Xb"
proof -
  have "Xb * b + b - 1 = b * Xb + (b - 1)" by (simp add: algebra_simps)
  then have "(Xb * b + b - 1) div b = Xb"
    using int_div_pos_eq[of "Xb * b + b - 1" b Xb "b - 1"] assms by simp
  then show ?thesis using assms by (simp add: udc_pos)
qed

lemma thread_extent_eq:
  assumes "1 \<le> b"
  shows "thread_extent (Xb * b) b S s = (bal_length Xb S s * b, bal_start Xb S s * b)"
  using assms by (simp add: thread_extent_def sdiv_exact balance211_parts)

lemma anchor_info_entry:
  assumes "1 \<le> Xb" "1 \<le> S" "0 \<le> s" "s < min Xb S"
    and Xi: "Xi = [bal_bigger_num Xb S, ((Xb - 1) div S + 1) * b,
                   (if Xb div S = 0 then (Xb - 1) div S + 1 else Xb div S) * b]"
  shows "Xi ! nat ((if s < Xi ! 0 then 0 else 1) + 1) = bal_length Xb S s * b"
    and "Xi ! 1 = Xi ! 2 \<longrightarrow> Xi ! 1 = bal_length Xb S s * b"
  using thread_blocks(2)[OF assms(1-4)] by (auto simp: Xi)

lemma thread_loop_once:
  assumes "1 \<le> iim_block p" "1 \<le> iin_block p"
    and "g_M gs = Mb * iim_block p" "g_N gs = Nb * iin_block p"
  shows "thread_loop p config gs 1 body m_s n_s tid =
         body (bal_length Mb (M_split_num config) m_s * iim_block p)
              (bal_length Nb (N_split_num config) n_s * iin_block p)
              (bal_start Mb (M_split_num config) m_s * iim_block p)
              (bal_start Nb (N_split_num config) n_s * iin_block p) m_s n_s tid"
  using assms by (simp add: thread_loop_def thread_extent_eq)

lemma thread_region_eq:
  assumes "1 \<le> iim_block p" "1 \<le> iin_block p"
    and "g_M gs = Mb * iim_block p" "g_N gs = Nb * iin_block p"
  shows "thread_region p gs config m_s n_s =
         {bal_start Mb (M_split_num config) m_s * iim_block p..<
          bal_start Mb (M_split_num config) m_s * iim_block p +
          bal_length Mb (M_split_num config) m_s * iim_block p} \<times>
         {bal_start Nb (N_split_num config) n_s * iin_block p..<
          bal_start Nb (N_split_num config) n_s * iin_block p +
          bal_length Nb (N_split_num config) n_s * iin_block p}"
  using assms by (simp add: thread_region_def thread_extent_eq)

lemma evenly_sub_divided_eq:
  assumes "1 \<le> iim_block p" "1 \<le> iin_block p"
    and "g_M gs = Mb * iim_block p" "g_N gs = Nb * iin_block p"
    and "0 \<le> bal_length Mb (M_split_num config) m_s" "0 \<le> bal_length Nb (N_split_num config) n_s"
    and "1 \<le> M_sub_block config" "1 \<le> N_sub_block config"
  shows "evenly_sub_divided p gs config m_s n_s \<longleftrightarrow>
         bal_length Mb (M_split_num config) m_s mod M_sub_block config = 0 \<and>
         bal_length Nb (N_split_num config) n_s mod N_sub_block config = 0"
  using assms by (simp add: evenly_sub_divided_def thread_extent_eq sdiv_exact smod_nonneg)

text \<open>
  Where the anchors do tile. Let \<^verbatim>\<open>generate\<close> return a plan for a valid operator, with a
  fusion manager and \<^verbatim>\<open>K_split_num = 1\<close>, and let \<open>(m_s, n_s)\<close> be a thread of the
  decomposition and \<open>tid\<close> a thread id. Then the slices of the anchors of the inner blocks
  created in the body of that thread tile the region of the thread: their union is the
  region and they are pairwise disjoint. When the output is blocking, or the sub-block
  counts divide the thread's numbers of blocks, the slices in force of the sub-block
  anchors tile the region as well.
\<close>

lemma anchors_tile_thread_region:
  assumes v: "valid_op p" and gen: "generate p g config = Inr pl"
    and f: "fusion g" and k1: "K_split_num (plan_sizes pl) = 1"
    and ms: "0 \<le> m_s" "m_s < M_real_split pl"
    and ns: "0 \<le> n_s" "n_s < N_real_split pl"
    and t: "0 \<le> tid"
  shows "tiles (map slice_cells (anchors_at Inner_block (thread_body pl m_s n_s tid)))
           (thread_region p (plan_sizes pl) config m_s n_s) \<and>
         (C_is_blocking g \<or> evenly_sub_divided p (plan_sizes pl) config m_s n_s \<longrightarrow>
            tiles (map slice_cells (anchors_at Sub_block (thread_body pl m_s n_s tid)))
              (thread_region p (plan_sizes pl) config m_s n_s))"
proof -
  let ?Mb = "n_blocks (plain_M p) (iim_block p)"
  let ?Nb = "n_blocks (plain_N p) (iin_block p)"
  let ?SM = "M_split_num config"
  let ?SN = "N_split_num config"
  obtain gs Mc Nc body where gs: "generate_sizes p config = Inr gs" "plan_sizes pl = gs"
    and mc: "utils_divide_and_ceil (g_M gs) (iim_block p) = Inr Mc"
            "utils_divide_and_ceil (g_N gs) (iin_block p) = Inr Nc"
    and rs: "M_real_split pl = min Mc ?SM" "N_real_split pl = min Nc ?SN"
    and s: "1 \<le> ?SM" "1 \<le> ?SN"
    and st: "single_thread_matmul_call p g config [M_blk_num gs, M_block_size gs, M_ib_block_size gs]
        [N_blk_num gs, N_block_size gs, N_ib_block_size gs] (K_split_num gs \<noteq> 1) = Inr body"
    and tb: "thread_body pl =
        thread_loop p config gs (if K_split_num gs \<noteq> 1 then K_real_split pl else K_split_num gs) body"
    using generate_Inr_facts[OF gen] by blast
  have b: "1 \<le> iim_block p" "1 \<le> iin_block p" "1 \<le> plain_M p" "1 \<le> plain_N p"
    using v by (simp_all add: valid_op_def)
  have b0: "0 < iim_block p" "0 < iin_block p" using b by simp_all
  have nb: "1 \<le> ?Mb" "1 \<le> ?Nb" using b by (simp_all add: n_blocks_def ceil_div_ge1)
  note sz = generate_sizes_eq[OF v s gs(1)]
  have Mc: "Mc = ?Mb" using mc(1) udc_exact[OF nb(1) b(1)] by (simp add: sz(1))
  have Nc: "Nc = ?Nb" using mc(2) udc_exact[OF nb(2) b(2)] by (simp add: sz(2))
  have ms': "m_s < min ?Mb ?SM" using ms rs Mc by simp
  have ns': "n_s < min ?Nb ?SN" using ns rs Nc by simp
  have k1': "K_split_num gs = 1" using k1 gs by simp
  let ?ml = "bal_length ?Mb ?SM m_s"
  let ?nl = "bal_length ?Nb ?SN n_s"
  let ?m_idx = "bal_start ?Mb ?SM m_s * iim_block p"
  let ?n_idx = "bal_start ?Nb ?SN n_s * iin_block p"
  let ?Mi = "[M_blk_num gs, M_block_size gs, M_ib_block_size gs]"
  let ?Ni = "[N_blk_num gs, N_block_size gs, N_ib_block_size gs]"
  have len: "1 \<le> ?ml" "1 \<le> ?nl"
    using thread_blocks(1)[OF nb(1) s(1) ms(1) ms'] thread_blocks(1)[OF nb(2) s(2) ns(1) ns'] by simp_all
  note sb = single_thread_matmul_call_Inr[OF st]
  have body: "thread_body pl m_s n_s tid =
      concat (map (\<lambda>m_b. concat (map (\<lambda>n_b.
        sub_block_body p g config ?Mi ?Ni False (?ml * iim_block p) (?nl * iin_block p)
          ?m_idx ?n_idx m_s n_s tid m_b n_b)
        [0..N_sub_block config - 1])) [0..M_sub_block config - 1])"
    unfolding tb k1' using thread_loop_once[OF b(1,2) sz(1,2), of config body m_s n_s tid]
    by (simp add: sb(4) k1')
  have reg: "thread_region p (plan_sizes pl) config m_s n_s =
      {?m_idx..<?m_idx + ?ml * iim_block p} \<times> {?n_idx..<?n_idx + ?nl * iin_block p}"
    unfolding gs(2) by (rule thread_region_eq[OF b(1,2) sz(1,2)])
  have d: "iim_block p dvd ?m_idx" "iin_block p dvd ?n_idx" by simp_all
  have np: "\<not> False" by simp
  have inner: "tiles (map slice_cells (anchors_at Inner_block (thread_body pl m_s n_s tid)))
           (thread_region p (plan_sizes pl) config m_s n_s)"
    unfolding body reg
    by (rule tiles_if_cover) (use cover_thread_inner[OF b0 d t f np sb(3) sb(1) sb(2) len] in auto)
  have Mi: "?Mi = [bal_bigger_num ?Mb ?SM, ((?Mb - 1) div ?SM + 1) * iim_block p,
                   (if ?Mb div ?SM = 0 then (?Mb - 1) div ?SM + 1 else ?Mb div ?SM) * iim_block p]"
    using sz by simp
  have Ni: "?Ni = [bal_bigger_num ?Nb ?SN, ((?Nb - 1) div ?SN + 1) * iin_block p,
                   (if ?Nb div ?SN = 0 then (?Nb - 1) div ?SN + 1 else ?Nb div ?SN) * iin_block p]"
    using sz by simp
  have sub: "tiles (map slice_cells (anchors_at Sub_block (thread_body pl m_s n_s tid)))
              (thread_region p (plan_sizes pl) config m_s n_s)"
    if blk: "C_is_blocking g \<or> evenly_sub_divided p (plan_sizes pl) config m_s n_s"
  proof -
    have h: "C_is_blocking g \<or> (?ml mod M_sub_block config = 0 \<and> ?nl mod N_sub_block config = 0)"
      using blk evenly_sub_divided_eq[OF b(1,2) sz(1,2) _ _ sb(1,2), of m_s n_s] len
      unfolding gs(2) by auto
    note mi = anchor_info_entry[OF nb(1) s(1) ms(1) ms' Mi]
    note ni = anchor_info_entry[OF nb(2) s(2) ns(1) ns' Ni]
    show ?thesis
      unfolding body reg
      by (rule tiles_if_cover)
         (use cover_thread_sub[OF b0 d f np sb(1) sb(2) len mi ni h] in auto)
  qed
  show ?thesis using inner sub by simp
qed

text \<open>
  Four threads on \<open>112 x 64 x 64\<close> with a blocking output: thread \<open>(1, 1)\<close> owns three
  blocks along M, cut into sub-blocks of two and one.
\<close>

lemma blocking_anchors_tile_example:
  "\<exists>pl. generate
       \<lparr>num_threads = 4, iim_block = 16, iin_block = 16, iik_block = 16,
        plain_M = 112, plain_K = 64, plain_N = 64, is_int8 = False, sizeofdtypeA = 4,
        sizeofdtypeC = 4, L2_size = 1048576\<rparr>
       \<lparr>fusion = True, C_is_blocking = True, B_dtype = f32, B_format_blocks_2 = - 1,
        C_blocking_dims = [7, 4, 16, 16], vectorize_step_16 = 16\<rparr>
       \<lparr>M_split_num = 2, N_split_num = 2, M_sub_block = 2, N_sub_block = 1,
        K_sub_block = 2, im_loop_order = 0\<rparr> = Inr pl
     \<and> K_split_num (plan_sizes pl) = 1 \<and> 1 < M_real_split pl \<and> 1 < N_real_split pl
     \<and> length (anchors_at Inner_block (thread_body pl 1 1 0)) = 6
     \<and> length (anchors_at Sub_block (thread_body pl 1 1 0)) = 2
     \<and> tiles (map slice_cells (anchors_at Inner_block (thread_body pl 1 1 0)))
         ({64..<112} \<times> {32..<64})
     \<and> tiles (map slice_cells (anchors_at Sub_block (thread_body pl 1 1 0)))
         ({64..<112} \<times> {32..<64})"
proof -
  let ?p = "\<lparr>num_threads = 4, iim_block = 16, iin_block = 16, iik_block = 16,
        plain_M = 112, plain_K = 64, plain_N = 64, is_int8 = False, sizeofdtypeA = 4,
        sizeofdtypeC = 4, L2_size = 1048576\<rparr>"
  let ?g = "\<lparr>fusion = True, C_is_blocking = True, B_dtype = f32, B_format_blocks_2 = - 1,
        C_blocking_dims = [7, 4, 16, 16], vectorize_step_16 = 16\<rparr>"
  let ?c = "\<lparr>M_split_num = 2, N_split_num = 2, M_sub_block = 2, N_sub_block = 1,
        K_sub_block = 2, im_loop_order = 0\<rparr>"
  have "case generate ?p ?g ?c of Inl e \<Rightarrow> False | Inr pl \<Rightarrow>
      K_split_num (plan_sizes pl) = 1 \<and> 1 < M_real_split pl \<and> 1 < N_real_split pl \<and>
      length (anchors_at Inner_block (thread_body pl 1 1 0)) = 6 \<and>
      length (anchors_at Sub_block (thread_body pl 1 1 0)) = 2 \<and>
      thread_extent (g_M (plan_sizes pl)) 16 2 1 = (48, 64) \<and>
      thread_extent (g_N (plan_sizes pl)) 16 2 1 = (32, 32)"
    by code_simp
  then obtain pl where pl: "generate ?p ?g ?c = Inr pl"
    and k: "K_split_num (plan_sizes pl) = 1" and m: "1 < M_real_split pl" and n: "1 < N_real_split pl"
    and l: "length (anchors_at Inner_block (thread_body pl 1 1 0)) = 6"
           "length (anchors_at Sub_block (thread_body pl 1 1 0)) = 2"
    and e: "thread_extent (g_M (plan_sizes pl)) 16 2 1 = (48, 64)"
           "thread_extent (g_N (plan_sizes pl)) 16 2 1 = (32, 32)"
    by (auto split: sum.splits)
  have v: "valid_op ?p" by (simp add: valid_op_def)
  have r: "thread_region ?p (plan_sizes pl) ?c 1 1 = {64..<112} \<times> {32..<64}"
    using e by (simp add: thread_region_def)
  show ?thesis
    using anchors_tile_thread_region[OF v pl _ k _ m _ n, of 0] pl k m n l r by simp
qed

text \<open>
  Claim C1 says that for every valid configuration the anchors created in the body of a
  thread tile its region. With a plain output and a sub-block count that does not divide the
  thread's number of blocks the sub-block anchors do not. Four threads, f32,
  \<open>112 x 64 x 64\<close>, for which the constructor chooses blocks of 16, and the configuration
  \<open>(2, 2, 2, 1, 2, 0)\<close>, which \<^verbatim>\<open>generate\<close> accepts with \<^verbatim>\<open>K_split_num = 1\<close>: thread
  \<open>(1, 1)\<close> owns the rows 64 to 111 and the columns 32 to 63, three blocks of rows cut into
  sub-blocks of two and one. The plain branch of the sixteen candidates computes the length
  \<open>48 / 2 = 24\<close> rows, plus one block for the bigger sub-block (lines 398-402), where the
  blocking branch computes \<open>48 / 16 / 2 = 1\<close> block, plus one (lines 413-418). The two
  sub-block anchors are the rows 64 to 103 and 96 to 119: they share the rows 96 to 103, and
  the second one leaves the region, and the padded output, at row 112.
\<close>

theorem plain_sub_block_anchors_overlap:
  "constructor_blocks f32 4 112 64 64 = Inr (16, 16, 16)
   \<and> (\<exists>pl. generate
       \<lparr>num_threads = 4, iim_block = 16, iin_block = 16, iik_block = 16,
        plain_M = 112, plain_K = 64, plain_N = 64, is_int8 = False, sizeofdtypeA = 4,
        sizeofdtypeC = 4, L2_size = 1048576\<rparr>
       \<lparr>fusion = True, C_is_blocking = False, B_dtype = f32, B_format_blocks_2 = - 1,
        C_blocking_dims = [112, 64], vectorize_step_16 = 16\<rparr>
       \<lparr>M_split_num = 2, N_split_num = 2, M_sub_block = 2, N_sub_block = 1,
        K_sub_block = 2, im_loop_order = 0\<rparr> = Inr pl
     \<and> K_split_num (plan_sizes pl) = 1 \<and> 1 < M_real_split pl \<and> 1 < N_real_split pl
     \<and> thread_region
       \<lparr>num_threads = 4, iim_block = 16, iin_block = 16, iik_block = 16,
        plain_M = 112, plain_K = 64, plain_N = 64, is_int8 = False, sizeofdtypeA = 4,
        sizeofdtypeC = 4, L2_size = 1048576\<rparr> (plan_sizes pl)
       \<lparr>M_split_num = 2, N_split_num = 2, M_sub_block = 2, N_sub_block = 1,
        K_sub_block = 2, im_loop_order = 0\<rparr> 1 1 = {64..<112} \<times> {32..<64}
     \<and> anchors_at Sub_block (thread_body pl 1 1 0) = [[(64, 40), (32, 32)], [(96, 24), (32, 32)]]
     \<and> (96, 32) \<in> slice_cells [(64, 40), (32, 32)] \<inter> slice_cells [(96, 24), (32, 32)]
     \<and> (112, 32) \<in> slice_cells [(96, 24), (32, 32)]
     \<and> (112, 32) \<notin> {64..<112::int} \<times> {32..<64::int})"
proof -
  let ?p = "\<lparr>num_threads = 4, iim_block = 16, iin_block = 16, iik_block = 16,
        plain_M = 112, plain_K = 64, plain_N = 64, is_int8 = False, sizeofdtypeA = 4,
        sizeofdtypeC = 4, L2_size = 1048576\<rparr>"
  let ?g = "\<lparr>fusion = True, C_is_blocking = False, B_dtype = f32, B_format_blocks_2 = - 1,
        C_blocking_dims = [112, 64], vectorize_step_16 = 16\<rparr>"
  let ?c = "\<lparr>M_split_num = 2, N_split_num = 2, M_sub_block = 2, N_sub_block = 1,
        K_sub_block = 2, im_loop_order = 0\<rparr>"
  have b: "constructor_blocks f32 4 112 64 64 = Inr (16, 16, 16)" by code_simp
  have "case generate ?p ?g ?c of Inl e \<Rightarrow> False | Inr pl \<Rightarrow>
      K_split_num (plan_sizes pl) = 1 \<and> 1 < M_real_split pl \<and> 1 < N_real_split pl \<and>
      thread_extent (g_M (plan_sizes pl)) 16 2 1 = (48, 64) \<and>
      thread_extent (g_N (plan_sizes pl)) 16 2 1 = (32, 32) \<and>
      anchors_at Sub_block (thread_body pl 1 1 0) = [[(64, 40), (32, 32)], [(96, 24), (32, 32)]]"
    by code_simp
  then obtain pl where pl: "generate ?p ?g ?c = Inr pl"
    and k: "K_split_num (plan_sizes pl) = 1" and m: "1 < M_real_split pl" and n: "1 < N_real_split pl"
    and e: "thread_extent (g_M (plan_sizes pl)) 16 2 1 = (48, 64)"
           "thread_extent (g_N (plan_sizes pl)) 16 2 1 = (32, 32)"
    and a: "anchors_at Sub_block (thread_body pl 1 1 0) = [[(64, 40), (32, 32)], [(96, 24), (32, 32)]]"
    by (auto split: sum.splits)
  have r: "thread_region ?p (plan_sizes pl) ?c 1 1 = {64..<112} \<times> {32..<64}"
    using e by (simp add: thread_region_def)
  have i: "(96, 32) \<in> slice_cells [(64, 40), (32, 32)] \<inter> slice_cells [(96, 24), (32, 32)]"
    by (simp add: slice_cells_def)
  have o: "(112, 32) \<in> slice_cells [(96, 24), (32, 32)]"
    "(112, 32) \<notin> {64..<112::int} \<times> {32..<64::int}"
    by (simp_all add: slice_cells_def)
  show ?thesis
    using b pl k m n r a i o by blast
qed

text \<open>
  In the terms of the tiling: at this input the anchors of the inner blocks tile the region of
  thread \<open>(1, 1)\<close> and the sub-block anchors do not.
\<close>

lemma plain_sub_block_anchors_do_not_tile:
  "\<exists>pl. generate
       \<lparr>num_threads = 4, iim_block = 16, iin_block = 16, iik_block = 16,
        plain_M = 112, plain_K = 64, plain_N = 64, is_int8 = False, sizeofdtypeA = 4,
        sizeofdtypeC = 4, L2_size = 1048576\<rparr>
       \<lparr>fusion = True, C_is_blocking = False, B_dtype = f32, B_format_blocks_2 = - 1,
        C_blocking_dims = [112, 64], vectorize_step_16 = 16\<rparr>
       \<lparr>M_split_num = 2, N_split_num = 2, M_sub_block = 2, N_sub_block = 1,
        K_sub_block = 2, im_loop_order = 0\<rparr> = Inr pl
     \<and> tiles (map slice_cells (anchors_at Inner_block (thread_body pl 1 1 0)))
         ({64..<112} \<times> {32..<64})
     \<and> \<not> tiles (map slice_cells (anchors_at Sub_block (thread_body pl 1 1 0)))
           ({64..<112} \<times> {32..<64})"
proof -
  let ?p = "\<lparr>num_threads = 4, iim_block = 16, iin_block = 16, iik_block = 16,
        plain_M = 112, plain_K = 64, plain_N = 64, is_int8 = False, sizeofdtypeA = 4,
        sizeofdtypeC = 4, L2_size = 1048576\<rparr>"
  let ?g = "\<lparr>fusion = True, C_is_blocking = False, B_dtype = f32, B_format_blocks_2 = - 1,
        C_blocking_dims = [112, 64], vectorize_step_16 = 16\<rparr>"
  let ?c = "\<lparr>M_split_num = 2, N_split_num = 2, M_sub_block = 2, N_sub_block = 1,
        K_sub_block = 2, im_loop_order = 0\<rparr>"
  have "case generate ?p ?g ?c of Inl e \<Rightarrow> False | Inr pl \<Rightarrow>
      K_split_num (plan_sizes pl) = 1 \<and> 1 < M_real_split pl \<and> 1 < N_real_split pl \<and>
      thread_extent (g_M (plan_sizes pl)) 16 2 1 = (48, 64) \<and>
      thread_extent (g_N (plan_sizes pl)) 16 2 1 = (32, 32) \<and>
      anchors_at Sub_block (thread_body pl 1 1 0) = [[(64, 40), (32, 32)], [(96, 24), (32, 32)]]"
    by code_simp
  then obtain pl where pl: "generate ?p ?g ?c = Inr pl"
    and k: "K_split_num (plan_sizes pl) = 1" and m: "1 < M_real_split pl" and n: "1 < N_real_split pl"
    and e: "thread_extent (g_M (plan_sizes pl)) 16 2 1 = (48, 64)"
           "thread_extent (g_N (plan_sizes pl)) 16 2 1 = (32, 32)"
    and a: "anchors_at Sub_block (thread_body pl 1 1 0) = [[(64, 40), (32, 32)], [(96, 24), (32, 32)]]"
    by (auto split: sum.splits)
  have v: "valid_op ?p" by (simp add: valid_op_def)
  have r: "thread_region ?p (plan_sizes pl) ?c 1 1 = {64..<112} \<times> {32..<64}"
    using e by (simp add: thread_region_def)
  have inner: "tiles (map slice_cells (anchors_at Inner_block (thread_body pl 1 1 0)))
         ({64..<112} \<times> {32..<64})"
    using anchors_tile_thread_region[OF v pl _ k _ m _ n, of 0] r by simp
  let ?A = "slice_cells [(64, 40), (32, 32)]"
  let ?B = "slice_cells [(96, 24), (32, 32)]"
  have i: "(96, 32) \<in> ?A \<inter> ?B" by (simp add: slice_cells_def)
  have "\<not> tiles [?A, ?B] ({64..<112} \<times> {32..<64})"
  proof
    assume "tiles [?A, ?B] ({64..<112} \<times> {32..<64})"
    then have "\<forall>i<length [?A, ?B]. \<forall>j<length [?A, ?B]. i \<noteq> j \<longrightarrow> [?A, ?B] ! i \<inter> [?A, ?B] ! j = {}"
      unfolding tiles_def by (rule conjunct2)
    from this[rule_format, of 0 1] have "?A \<inter> ?B = {}" by simp
    then show False using i by blast
  qed
  then have "\<not> tiles (map slice_cells (anchors_at Sub_block (thread_body pl 1 1 0)))
           ({64..<112} \<times> {32..<64})"
    using a by simp
  then show ?thesis using pl inner by blast
qed

text \<open>
  The same with a default configuration: one thread, f32, \<open>432 x 1024 x 16\<close> and a cache of
  1 MiB. The constructor chooses blocks of 16, \<^verbatim>\<open>get_default_config\<close> returns
  \<open>(1, 1, 2, 1, 2, 0)\<close> (\<^verbatim>\<open>L2_MN\<close> is 212 as before), and the 27 blocks of rows are cut into
  sub-blocks of 14 and 13. With a plain output the two sub-block anchors are the rows 0 to
  231 and 224 to 439 of a padded output of 432 rows.
\<close>

lemma plain_sub_block_anchors_overlap_default_config:
  "constructor_blocks f32 1 432 1024 16 = Inr (16, 16, 16)
   \<and> get_default_config (\<lambda>a k c l. 212)
       \<lparr>num_threads = 1, iim_block = 16, iin_block = 16, iik_block = 16,
        plain_M = 432, plain_K = 1024, plain_N = 16, is_int8 = False, sizeofdtypeA = 4,
        sizeofdtypeC = 4, L2_size = 1048576\<rparr> =
       Inr \<lparr>M_split_num = 1, N_split_num = 1, M_sub_block = 2, N_sub_block = 1,
        K_sub_block = 2, im_loop_order = 0\<rparr>
   \<and> (\<exists>pl. generate
       \<lparr>num_threads = 1, iim_block = 16, iin_block = 16, iik_block = 16,
        plain_M = 432, plain_K = 1024, plain_N = 16, is_int8 = False, sizeofdtypeA = 4,
        sizeofdtypeC = 4, L2_size = 1048576\<rparr>
       \<lparr>fusion = True, C_is_blocking = False, B_dtype = f32, B_format_blocks_2 = - 1,
        C_blocking_dims = [432, 16], vectorize_step_16 = 16\<rparr>
       \<lparr>M_split_num = 1, N_split_num = 1, M_sub_block = 2, N_sub_block = 1,
        K_sub_block = 2, im_loop_order = 0\<rparr> = Inr pl
     \<and> K_split_num (plan_sizes pl) = 1
     \<and> thread_region
       \<lparr>num_threads = 1, iim_block = 16, iin_block = 16, iik_block = 16,
        plain_M = 432, plain_K = 1024, plain_N = 16, is_int8 = False, sizeofdtypeA = 4,
        sizeofdtypeC = 4, L2_size = 1048576\<rparr> (plan_sizes pl)
       \<lparr>M_split_num = 1, N_split_num = 1, M_sub_block = 2, N_sub_block = 1,
        K_sub_block = 2, im_loop_order = 0\<rparr> 0 0 = {0..<432} \<times> {0..<16}
     \<and> anchors_at Sub_block (thread_body pl 0 0 0) = [[(0, 232), (0, 16)], [(224, 216), (0, 16)]]
     \<and> (224, 0) \<in> slice_cells [(0, 232), (0, 16)] \<inter> slice_cells [(224, 216), (0, 16)])"
proof -
  let ?p = "\<lparr>num_threads = 1, iim_block = 16, iin_block = 16, iik_block = 16,
        plain_M = 432, plain_K = 1024, plain_N = 16, is_int8 = False, sizeofdtypeA = 4,
        sizeofdtypeC = 4, L2_size = 1048576\<rparr>"
  let ?g = "\<lparr>fusion = True, C_is_blocking = False, B_dtype = f32, B_format_blocks_2 = - 1,
        C_blocking_dims = [432, 16], vectorize_step_16 = 16\<rparr>"
  let ?c = "\<lparr>M_split_num = 1, N_split_num = 1, M_sub_block = 2, N_sub_block = 1,
        K_sub_block = 2, im_loop_order = 0\<rparr>"
  have b: "constructor_blocks f32 1 432 1024 16 = Inr (16, 16, 16)" by code_simp
  have d: "get_default_config (\<lambda>a k c l. 212) ?p = Inr ?c" by code_simp
  have "case generate ?p ?g ?c of Inl e \<Rightarrow> False | Inr pl \<Rightarrow>
      K_split_num (plan_sizes pl) = 1 \<and>
      thread_extent (g_M (plan_sizes pl)) 16 1 0 = (432, 0) \<and>
      thread_extent (g_N (plan_sizes pl)) 16 1 0 = (16, 0) \<and>
      anchors_at Sub_block (thread_body pl 0 0 0) = [[(0, 232), (0, 16)], [(224, 216), (0, 16)]]"
    by code_simp
  then obtain pl where pl: "generate ?p ?g ?c = Inr pl"
    and k: "K_split_num (plan_sizes pl) = 1"
    and e: "thread_extent (g_M (plan_sizes pl)) 16 1 0 = (432, 0)"
           "thread_extent (g_N (plan_sizes pl)) 16 1 0 = (16, 0)"
    and a: "anchors_at Sub_block (thread_body pl 0 0 0) = [[(0, 232), (0, 16)], [(224, 216), (0, 16)]]"
    by (auto split: sum.splits)
  have r: "thread_region ?p (plan_sizes pl) ?c 0 0 = {0..<432} \<times> {0..<16}"
    using e by (simp add: thread_region_def)
  have i: "(224, 0) \<in> slice_cells [(0, 232), (0, 16)] \<inter> slice_cells [(224, 216), (0, 16)]"
    by (simp add: slice_cells_def)
  show ?thesis using b d pl k r a i by blast
qed

section \<open>The temporary buffer and the reduction phase\<close>

lemma for_range_bounds: "x \<in> set (for_range lo hi step) \<Longrightarrow> lo \<le> x \<and> x < hi"
proof (induction lo hi step rule: for_range.induct)
  case (1 lo hi step)
  show ?case
  proof (cases "step \<le> 0 \<or> hi \<le> lo")
    case True
    then show ?thesis using 1(2) by (simp add: for_range.simps)
  next
    case False
    then have "x = lo \<or> x \<in> set (for_range (lo + step) hi step)"
      using 1(2) by (subst (asm) for_range.simps) simp
    then show ?thesis using 1(1)[OF False] False by auto
  qed
qed

lemma for_range_first: "0 < step \<Longrightarrow> lo < hi \<Longrightarrow> lo \<in> set (for_range lo hi step)"
  by (subst for_range.simps) simp

lemma Add_slot_in_tile_blocking:
  assumes "m_idx < g_M gs" "n_idx < g_N gs"
  shows "Add_slot lks idx la \<in> set (reduce_tile_blocking p gs Kr lanes Nnb m_idx n_idx lm_ln) \<longleftrightarrow>
         la = lanes \<and> 0 \<le> lks \<and> lks < Kr \<and>
         (\<exists>lmo lno. 0 \<le> lmo \<and> lmo < iim_block p \<and> lno \<in> set (for_range 0 (iin_block p) lanes) \<and>
            idx = [m_idx sdiv iim_block p + lm_ln sdiv Nnb, n_idx sdiv iin_block p + lm_ln smod Nnb,
                   lmo, lno])"
proof
  assume "Add_slot lks idx la \<in> set (reduce_tile_blocking p gs Kr lanes Nnb m_idx n_idx lm_ln)"
  then show "la = lanes \<and> 0 \<le> lks \<and> lks < Kr \<and>
         (\<exists>lmo lno. 0 \<le> lmo \<and> lmo < iim_block p \<and> lno \<in> set (for_range 0 (iin_block p) lanes) \<and>
            idx = [m_idx sdiv iim_block p + lm_ln sdiv Nnb, n_idx sdiv iin_block p + lm_ln smod Nnb,
                   lmo, lno])"
    using assms by (auto simp: reduce_tile_blocking_def Let_def)
next
  assume a: "la = lanes \<and> 0 \<le> lks \<and> lks < Kr \<and>
         (\<exists>lmo lno. 0 \<le> lmo \<and> lmo < iim_block p \<and> lno \<in> set (for_range 0 (iin_block p) lanes) \<and>
            idx = [m_idx sdiv iim_block p + lm_ln sdiv Nnb, n_idx sdiv iin_block p + lm_ln smod Nnb,
                   lmo, lno])"
  then obtain lmo lno where i: "0 \<le> lmo" "lmo < iim_block p"
      "lno \<in> set (for_range 0 (iin_block p) lanes)"
      "idx = [m_idx sdiv iim_block p + lm_ln sdiv Nnb, n_idx sdiv iin_block p + lm_ln smod Nnb,
              lmo, lno]" by blast
  have r: "lks \<in> {0..Kr - 1}" "lmo \<in> {0..iim_block p - 1}" using a i by simp_all
  have la: "la = lanes" using a by simp
  have s: "set (reduce_tile_blocking p gs Kr lanes Nnb m_idx n_idx lm_ln) =
      insert (Mem_zero [m_idx sdiv iim_block p + lm_ln sdiv Nnb,
                        n_idx sdiv iin_block p + lm_ln smod Nnb, 0, 0] (iim_block p * iin_block p))
        (\<Union>lks\<in>{0..Kr - 1}. \<Union>lmo\<in>{0..iim_block p - 1}.
           (\<lambda>lno. Add_slot lks [m_idx sdiv iim_block p + lm_ln sdiv Nnb,
                                  n_idx sdiv iin_block p + lm_ln smod Nnb, lmo, lno] lanes) `
             set (for_range 0 (iin_block p) lanes))"
    using assms by (simp add: reduce_tile_blocking_def Let_def)
  show "Add_slot lks idx la \<in> set (reduce_tile_blocking p gs Kr lanes Nnb m_idx n_idx lm_ln)"
    unfolding s i(4) la
    by (intro insertI2 UN_I[of lks] UN_I[of lmo] imageI r i(3))
qed

lemma Add_slot_in_elem_plain:
  assumes "m_idx < g_M gs" "n_idx < g_N gs"
  shows "Add_slot lks idx la \<in> set (reduce_elem_plain gs lanes Ns m_idx n_idx lm_ln) \<longleftrightarrow>
         la = lanes \<and> 0 \<le> lks \<and> lks < K_split_num gs \<and>
         idx = [m_idx + lm_ln sdiv Ns, n_idx + lm_ln smod Ns]"
  using assms by (auto simp: reduce_elem_plain_def Let_def)

lemma Add_slot_in_reduce_plain:
  assumes "m_idx < g_M gs" "n_idx < g_N gs"
  shows "Add_slot lks idx la \<in> set (reduce_plain p gs lanes Ms Ns m_idx n_idx) \<longleftrightarrow>
         la = lanes \<and> 0 \<le> lks \<and> lks < K_split_num gs \<and>
         (\<exists>lm_ln \<in> set (for_range 0 (Ms * Ns) lanes).
            idx = [m_idx + lm_ln sdiv Ns, n_idx + lm_ln smod Ns])"
  using assms by (auto simp: reduce_plain_def Add_slot_in_elem_plain)

lemma set_slots_read:
  "set (slots_read evs) = {lks. \<exists>idx lanes. Add_slot lks idx lanes \<in> set evs}"
proof (induction evs)
  case Nil
  then show ?case by simp
next
  case (Cons e es)
  then show ?case by (cases e) auto
qed

lemma reduce_blocking_slots:
  assumes b: "0 < iim_block p" "0 < iin_block p" and l: "0 < lanes"
    and g: "m_idx < g_M gs" "n_idx < g_N gs" and sz: "0 < Ms" "0 < Ns"
  shows "set (slots_read (reduce_blocking p gs Kr lanes Ms Ns m_idx n_idx)) = {0..<Kr}"
proof -
  let ?Mnb = "divide_and_ceil Ms (iim_block p)"
  let ?Nnb = "divide_and_ceil Ns (iin_block p)"
  let ?evs = "reduce_blocking p gs Kr lanes Ms Ns m_idx n_idx"
  have nb: "1 \<le> ?Mnb" "1 \<le> ?Nnb"
    using sz b by (simp_all add: divide_and_ceil_pos pos_imp_zdiv_nonneg_iff)
  then have "1 * 1 \<le> ?Mnb * ?Nnb" by (intro mult_mono) simp_all
  then have n: "1 \<le> ?Mnb * ?Nnb" by simp
  have mem: "Add_slot lks idx la \<in> set ?evs \<longleftrightarrow>
      (\<exists>lm_ln. 0 \<le> lm_ln \<and> lm_ln < ?Mnb * ?Nnb \<and>
         Add_slot lks idx la \<in> set (reduce_tile_blocking p gs Kr lanes ?Nnb m_idx n_idx lm_ln))"
    for lks idx la
    by (auto simp: reduce_blocking_def Let_def)
  show ?thesis
  proof (intro equalityI subsetI)
    fix lks assume "lks \<in> set (slots_read ?evs)"
    then obtain idx la where "Add_slot lks idx la \<in> set ?evs"
      unfolding set_slots_read by blast
    then show "lks \<in> {0..<Kr}"
      unfolding mem Add_slot_in_tile_blocking[OF g] by auto
  next
    fix lks assume k: "lks \<in> {0..<Kr}"
    have z: "0 \<in> set (for_range 0 (iin_block p) lanes)" using l b by (intro for_range_first)
    have "Add_slot lks [m_idx sdiv iim_block p + 0 sdiv ?Nnb, n_idx sdiv iin_block p + 0 smod ?Nnb, 0, 0]
            lanes \<in> set (reduce_tile_blocking p gs Kr lanes ?Nnb m_idx n_idx 0)"
      unfolding Add_slot_in_tile_blocking[OF g] using k b z by auto
    then have "Add_slot lks [m_idx sdiv iim_block p + 0 sdiv ?Nnb, n_idx sdiv iin_block p + 0 smod ?Nnb, 0, 0]
            lanes \<in> set ?evs"
      unfolding mem using n by (intro exI[of _ 0]) simp
    then show "lks \<in> set (slots_read ?evs)" unfolding set_slots_read by blast
  qed
qed

lemma reduce_plain_slots:
  assumes l: "0 < lanes" and g: "m_idx < g_M gs" "n_idx < g_N gs" and sz: "0 < Ms" "0 < Ns"
  shows "set (slots_read (reduce_plain p gs lanes Ms Ns m_idx n_idx)) = {0..<K_split_num gs}"
proof -
  have "0 < Ms * Ns" using sz by simp
  then have z: "0 \<in> set (for_range 0 (Ms * Ns) lanes)" using l by (intro for_range_first)
  show ?thesis
    unfolding set_slots_read Add_slot_in_reduce_plain[OF g] using z by auto
qed

lemma reduce_phase_eq:
  assumes "1 \<le> iim_block p" "1 \<le> iin_block p"
    and "g_M gs = Mb * iim_block p" "g_N gs = Nb * iin_block p"
  shows "reduce_phase p g config gs Kr m_s n_s =
     (if C_is_blocking g
      then reduce_blocking p gs Kr (vector_lanes p g)
             (bal_length Mb (M_split_num config) m_s * iim_block p)
             (bal_length Nb (N_split_num config) n_s * iin_block p)
             (bal_start Mb (M_split_num config) m_s * iim_block p)
             (bal_start Nb (N_split_num config) n_s * iin_block p)
      else reduce_plain p gs (vector_lanes p g)
             (bal_length Mb (M_split_num config) m_s * iim_block p)
             (bal_length Nb (N_split_num config) n_s * iin_block p)
             (bal_start Mb (M_split_num config) m_s * iim_block p)
             (bal_start Nb (N_split_num config) n_s * iin_block p))"
  using assms by (simp add: reduce_phase_def thread_extent_eq)

text \<open>
  Claim C5 says that the buffer has \<^verbatim>\<open>K_split_num\<close> slots and that the reduction adds all of
  them. In the code the buffer has \<^verbatim>\<open>K_real_split\<close> slots, the smaller of \<^verbatim>\<open>K_split_num\<close>
  and the number of blocks along K (lines 583 and 719), and only these are written (line
  744). The reduction of a blocking output reads the slots below \<^verbatim>\<open>K_real_split\<close> (line
  776); the reduction of a plain output reads the slots below \<^verbatim>\<open>K_split_num\<close> (line 809),
  which are outside the buffer from \<^verbatim>\<open>K_real_split\<close> on. The theorem gives the set of slots
  read in the reduction of a thread \<open>(m_s, n_s)\<close>, for every plan returned for a valid operator
  with \<^verbatim>\<open>K_split_num > 1\<close> and a positive vector step.
\<close>

theorem reduction_reads_slots:
  assumes v: "valid_op p" and gen: "generate p g config = Inr pl"
    and k: "1 < K_split_num (plan_sizes pl)"
    and vs: "1 \<le> vectorize_step_16 g"
    and ms: "0 \<le> m_s" "m_s < M_real_split pl"
    and ns: "0 \<le> n_s" "n_s < N_real_split pl"
  shows "K_real_split pl = min (n_blocks (plain_K p) (iik_block p)) (K_split_num (plan_sizes pl)) \<and>
         out_tmp_buf_shape pl = Some (K_real_split pl # C_blocking_dims g) \<and>
         set (slots_read (reduce_body pl m_s n_s)) =
           {0..<(if C_is_blocking g then K_real_split pl else K_split_num (plan_sizes pl))}"
proof -
  let ?Mb = "n_blocks (plain_M p) (iim_block p)"
  let ?Nb = "n_blocks (plain_N p) (iin_block p)"
  let ?Kb = "n_blocks (plain_K p) (iik_block p)"
  let ?SM = "M_split_num config"
  let ?SN = "N_split_num config"
  obtain gs Mc Nc Kc where gs: "generate_sizes p config = Inr gs" "plan_sizes pl = gs"
    and mc: "utils_divide_and_ceil (g_M gs) (iim_block p) = Inr Mc"
            "utils_divide_and_ceil (g_N gs) (iin_block p) = Inr Nc"
            "utils_divide_and_ceil (g_K gs) (iik_block p) = Inr Kc"
    and rs: "M_real_split pl = min Mc ?SM" "N_real_split pl = min Nc ?SN"
            "K_real_split pl = min Kc (K_split_num gs)"
    and s: "1 \<le> ?SM" "1 \<le> ?SN"
    and buf: "out_tmp_buf_shape pl =
        (if K_split_num gs \<noteq> 1 then Some (K_real_split pl # C_blocking_dims g) else None)"
    and rb: "reduce_body pl =
        (if K_split_num gs \<noteq> 1 then reduce_phase p g config gs (K_real_split pl)
         else (\<lambda>m_s n_s. []))"
    using generate_Inr_facts[OF gen] by blast
  have b: "1 \<le> iim_block p" "1 \<le> iin_block p" "1 \<le> iik_block p"
    "1 \<le> plain_M p" "1 \<le> plain_N p" "1 \<le> plain_K p"
    using v by (simp_all add: valid_op_def)
  have b0: "0 < iim_block p" "0 < iin_block p" using b by simp_all
  have nb: "1 \<le> ?Mb" "1 \<le> ?Nb" "1 \<le> ?Kb" using b by (simp_all add: n_blocks_def ceil_div_ge1)
  note sz = generate_sizes_eq[OF v s gs(1)]
  have Mc: "Mc = ?Mb" using mc(1) udc_exact[OF nb(1) b(1)] by (simp add: sz(1))
  have Nc: "Nc = ?Nb" using mc(2) udc_exact[OF nb(2) b(2)] by (simp add: sz(2))
  have Kc: "Kc = ?Kb" using mc(3) udc_exact[OF nb(3) b(3)] by (simp add: sz(3))
  have ms': "m_s < min ?Mb ?SM" using ms rs Mc by simp
  have ns': "n_s < min ?Nb ?SN" using ns rs Nc by simp
  have k': "1 < K_split_num gs" using k gs by simp
  have kr: "K_real_split pl = min ?Kb (K_split_num gs)" using rs(3) Kc by simp
  let ?ml = "bal_length ?Mb ?SM m_s"
  let ?nl = "bal_length ?Nb ?SN n_s"
  let ?m_idx = "bal_start ?Mb ?SM m_s * iim_block p"
  let ?n_idx = "bal_start ?Nb ?SN n_s * iin_block p"
  have len: "1 \<le> ?ml" "1 \<le> ?nl"
    using thread_blocks(1)[OF nb(1) s(1) ms(1) ms'] thread_blocks(1)[OF nb(2) s(2) ns(1) ns'] by simp_all
  have pos: "0 < ?ml * iim_block p" "0 < ?nl * iin_block p" using len b0 by simp_all
  have g: "?m_idx < g_M gs" "?n_idx < g_N gs"
    using bal_start_lt(2)[OF nb(1) s(1) ms(1) ms'] bal_start_lt(2)[OF nb(2) s(2) ns(1) ns'] b0
    by (simp_all add: sz(1,2))
  have lanes: "0 < vector_lanes p g" using vs by (simp add: vector_lanes_def)
  have body: "reduce_body pl m_s n_s =
     (if C_is_blocking g
      then reduce_blocking p gs (K_real_split pl) (vector_lanes p g)
             (?ml * iim_block p) (?nl * iin_block p) ?m_idx ?n_idx
      else reduce_plain p gs (vector_lanes p g)
             (?ml * iim_block p) (?nl * iin_block p) ?m_idx ?n_idx)"
    using k' by (simp add: rb reduce_phase_eq[OF b(1,2) sz(1,2)])
  have sl: "set (slots_read (reduce_body pl m_s n_s)) =
           {0..<(if C_is_blocking g then K_real_split pl else K_split_num gs)}"
    unfolding body
    using reduce_blocking_slots[OF b0 lanes g pos] reduce_plain_slots[OF lanes g pos]
    by simp
  show ?thesis using kr buf k' sl by (simp add: gs(2))
qed

text \<open>
  Two threads, f32, \<open>16 x 16 x 16\<close>, for which the constructor chooses the blocks
  \<open>(8, 16, 16)\<close>, and a configuration without a split of M or N, which \<^verbatim>\<open>generate\<close>
  accepts: \<^verbatim>\<open>K_split_num\<close> is 2, K has one block and \<^verbatim>\<open>K_real_split\<close> is 1. With a plain
  output the buffer has the shape \<open>[1, 16, 16]\<close> and the reduction reads the slots 0 and 1;
  with a blocking output it reads slot 0 only.
\<close>

theorem reduction_reads_slots_witness:
  "constructor_blocks f32 2 16 16 16 = Inr (8, 16, 16)
   \<and> (\<exists>pl. generate
       \<lparr>num_threads = 2, iim_block = 8, iin_block = 16, iik_block = 16,
        plain_M = 16, plain_K = 16, plain_N = 16, is_int8 = False, sizeofdtypeA = 4,
        sizeofdtypeC = 4, L2_size = 1048576\<rparr>
       \<lparr>fusion = True, C_is_blocking = False, B_dtype = f32, B_format_blocks_2 = - 1,
        C_blocking_dims = [16, 16], vectorize_step_16 = 16\<rparr>
       \<lparr>M_split_num = 1, N_split_num = 1, M_sub_block = 1, N_sub_block = 1,
        K_sub_block = 1, im_loop_order = 0\<rparr> = Inr pl
     \<and> K_split_num (plan_sizes pl) = 2 \<and> K_real_split pl = 1
     \<and> out_tmp_buf_shape pl = Some [1, 16, 16]
     \<and> set (slots_read (reduce_body pl 0 0)) = {0..<2}
     \<and> Add_slot 1 [0, 0] 16 \<in> set (reduce_body pl 0 0))
   \<and> (\<exists>pl. generate
       \<lparr>num_threads = 2, iim_block = 8, iin_block = 16, iik_block = 16,
        plain_M = 16, plain_K = 16, plain_N = 16, is_int8 = False, sizeofdtypeA = 4,
        sizeofdtypeC = 4, L2_size = 1048576\<rparr>
       \<lparr>fusion = True, C_is_blocking = True, B_dtype = f32, B_format_blocks_2 = - 1,
        C_blocking_dims = [2, 1, 8, 16], vectorize_step_16 = 16\<rparr>
       \<lparr>M_split_num = 1, N_split_num = 1, M_sub_block = 1, N_sub_block = 1,
        K_sub_block = 1, im_loop_order = 0\<rparr> = Inr pl
     \<and> out_tmp_buf_shape pl = Some [1, 2, 1, 8, 16]
     \<and> set (slots_read (reduce_body pl 0 0)) = {0..<1})"
proof -
  let ?p = "\<lparr>num_threads = 2, iim_block = 8, iin_block = 16, iik_block = 16,
        plain_M = 16, plain_K = 16, plain_N = 16, is_int8 = False, sizeofdtypeA = 4,
        sizeofdtypeC = 4, L2_size = 1048576\<rparr>"
  let ?g = "\<lparr>fusion = True, C_is_blocking = False, B_dtype = f32, B_format_blocks_2 = - 1,
        C_blocking_dims = [16, 16], vectorize_step_16 = 16\<rparr>"
  let ?gb = "\<lparr>fusion = True, C_is_blocking = True, B_dtype = f32, B_format_blocks_2 = - 1,
        C_blocking_dims = [2, 1, 8, 16], vectorize_step_16 = 16\<rparr>"
  let ?c = "\<lparr>M_split_num = 1, N_split_num = 1, M_sub_block = 1, N_sub_block = 1,
        K_sub_block = 1, im_loop_order = 0\<rparr>"
  have v: "valid_op ?p" by (simp add: valid_op_def)
  have b: "constructor_blocks f32 2 16 16 16 = Inr (8, 16, 16)" by code_simp
  have nb: "n_blocks (plain_K ?p) (iik_block ?p) = 1" by (simp add: n_blocks_def)
  have "case generate ?p ?g ?c of Inl e \<Rightarrow> False | Inr pl \<Rightarrow>
      K_split_num (plan_sizes pl) = 2 \<and> 0 < M_real_split pl \<and> 0 < N_real_split pl \<and>
      Add_slot 1 [0, 0] 16 \<in> set (reduce_body pl 0 0)"
    by code_simp
  then obtain pl where pl: "generate ?p ?g ?c = Inr pl"
    and k: "K_split_num (plan_sizes pl) = 2" and m: "0 < M_real_split pl" and n: "0 < N_real_split pl"
    and a: "Add_slot 1 [0, 0] 16 \<in> set (reduce_body pl 0 0)"
    by (auto split: sum.splits)
  have k1: "1 < K_split_num (plan_sizes pl)" using k by simp
  have plain: "\<exists>pl. generate ?p ?g ?c = Inr pl
     \<and> K_split_num (plan_sizes pl) = 2 \<and> K_real_split pl = 1
     \<and> out_tmp_buf_shape pl = Some [1, 16, 16]
     \<and> set (slots_read (reduce_body pl 0 0)) = {0..<2}
     \<and> Add_slot 1 [0, 0] 16 \<in> set (reduce_body pl 0 0)"
    using reduction_reads_slots[OF v pl k1 _ _ m _ n] pl k a nb by auto
  have "case generate ?p ?gb ?c of Inl e \<Rightarrow> False | Inr pl \<Rightarrow>
      K_split_num (plan_sizes pl) = 2 \<and> 0 < M_real_split pl \<and> 0 < N_real_split pl"
    by code_simp
  then obtain pl' where pl': "generate ?p ?gb ?c = Inr pl'"
    and k': "K_split_num (plan_sizes pl') = 2" and m': "0 < M_real_split pl'"
    and n': "0 < N_real_split pl'"
    by (auto split: sum.splits)
  have k1': "1 < K_split_num (plan_sizes pl')" using k' by simp
  have blocking: "\<exists>pl. generate ?p ?gb ?c = Inr pl
     \<and> out_tmp_buf_shape pl = Some [1, 2, 1, 8, 16]
     \<and> set (slots_read (reduce_body pl 0 0)) = {0..<1}"
    using reduction_reads_slots[OF v pl' k1' _ _ m' _ n'] pl' k' nb by auto
  show ?thesis using b plain blocking by blast
qed

end
